theory Spec2Isabelle
  imports Complex_Main "HOL-Library.AList" "HOL-Library.Multiset"
begin

section \<open>JavaScript values, objects and the heap\<close>

text \<open>
  The binding components pass plain JavaScript values to the mapping SDK. A value is a
  primitive, a function, or a reference to a heap cell (an array, an object literal or an
  instance of an SDK class). Numbers are rationals, with \<open>NaN\<close> apart (it is the one
  number besides zero that is falsy). A function is an immutable value: either one that
  the application supplies (\<open>Fn\<close>, numbered) or the callback that
  \<open>createEventCallback(name, instance).bind(this)\<close> returns.
\<close>

datatype jsval =
    Undefined
  | Null
  | Bool bool
  | Num rat
  | NaN
  | Str string
  | Fn nat
  | EventCallback string jsval
  | Ref nat

text \<open>The classes of \<open>window.AMap\<close> that the two components name.\<close>

datatype sdkclass = AMap_Map | AMap_Marker | AMap_Bounds | AMap_Pixel | AMap_Icon

text \<open>
  A heap cell. An object literal keeps its own enumerable properties in insertion order;
  an SDK instance keeps the arguments it was constructed with (its fields are the SDK's).
\<close>

datatype hobj =
    Obj "(string \<times> jsval) list"
  | Arr "jsval list"
  | Inst sdkclass "jsval list"

type_synonym heap = "hobj list"

text \<open>
  Component props and the option objects parsed from them are association lists with
  distinct keys, in insertion order.
\<close>

type_synonym object = "(string \<times> jsval) list"

definition alloc :: "hobj \<Rightarrow> heap \<Rightarrow> nat \<times> heap" where
  "alloc ob h = (length h, h @ [ob])"

definition deref :: "heap \<Rightarrow> jsval \<Rightarrow> hobj option" where
  "deref h v = (case v of Ref a \<Rightarrow> (if a < length h then Some (h ! a) else None) | _ \<Rightarrow> None)"

text \<open>\<open>ob.k\<close> on a props or options object: a missing key reads as \<open>undefined\<close>.\<close>

definition get :: "object \<Rightarrow> string \<Rightarrow> jsval" where
  "get ob k = (case map_of ob k of Some v \<Rightarrow> v | None \<Rightarrow> Undefined)"

text \<open>\<open>const {k1, ..., kn, ...rest} = ob\<close>: the rest object.\<close>

definition omit :: "string list \<Rightarrow> object \<Rightarrow> object" where
  "omit ks ob = filter (\<lambda>kv. fst kv \<notin> set ks) ob"

text \<open>\<open>Object.keys\<close> (the keys here are identifiers, so insertion order is kept).\<close>

definition keys :: "object \<Rightarrow> string list" where
  "keys ob = map fst ob"

text \<open>\<open>!v\<close> is true for exactly the falsy values.\<close>

fun truthy :: "jsval \<Rightarrow> bool" where
  "truthy Undefined = False"
| "truthy Null = False"
| "truthy (Bool b) = b"
| "truthy (Num r) = (r \<noteq> 0)"
| "truthy NaN = False"
| "truthy (Str s) = (s \<noteq> [])"
| "truthy (Fn n) = True"
| "truthy (EventCallback k i) = True"
| "truthy (Ref a) = True"

text \<open>
  \<open>v instanceof window.AMap.C\<close>. The test \<open>v instanceof Array\<close> is written as the \<open>Arr\<close>
  case of a \<open>deref\<close> where it occurs.
\<close>

definition instanceOf :: "heap \<Rightarrow> jsval \<Rightarrow> sdkclass \<Rightarrow> bool" where
  "instanceOf h v c = (case deref h v of Some (Inst c' args) \<Rightarrow> c' = c | _ \<Rightarrow> False)"

text \<open>
  Calls that leave the repository: on the document, on \<open>window\<close>, on an SDK
  constructor or instance, or on a callback of the application.
\<close>

datatype script = MapsJs | UiJs | LocaJs

datatype error = TypeError | RangeError | NotChildOfAMap

datatype call =
    AppendScript script
  | InitAMapUI
  | NewMap jsval object jsval
  | NewMarker object jsval
  | Invoke jsval string "jsval list"
  | Apply jsval "jsval list"
  | Uncaught error

text \<open>
  Two helpers of the repository, \<open>utils/isShallowEqual\<close> and \<open>utils/cloneDeep\<close>,
  are imported by both components but their files are not among the sources. The
  components are parametrised by them. \<open>cloneDeep\<close> may raise.
\<close>

record utils =
  isShallowEqual :: "heap \<Rightarrow> jsval \<Rightarrow> jsval \<Rightarrow> bool"
  cloneDeep :: "heap \<Rightarrow> object \<Rightarrow> string list \<Rightarrow> error + object \<times> heap"

section \<open>AMap: option parsing and diffing\<close>

definition mapLoaderKeys :: "string list" where
  "mapLoaderKeys = [''appKey'', ''children'', ''locaVersion'', ''protocol'', ''uiVersion'',
     ''version'']"

definition mapEventKeys :: "string list" where
  "mapEventKeys = [''onComplete'', ''onClick'', ''onDblClick'', ''onMapMove'',
     ''onHotspotClick'', ''onHotspotOver'', ''onHotspotOut'', ''onMoveStart'', ''onMoveEnd'',
     ''onZoomChange'', ''onZoomStart'', ''onZoomEnd'', ''onMouseMove'', ''onMouseWheel'',
     ''onMouseOver'', ''onMouseOut'', ''onMouseUp'', ''onMouseDown'', ''onRightClick'',
     ''onDragStart'', ''onDragging'', ''onDragEnd'', ''onResize'', ''onTouchStart'',
     ''onTouchMove'', ''onTouchEnd'']"

text \<open>
  \<open>AMap.parseMapOptions(props)\<close>. The first argument says whether \<open>window.AMap\<close> is
  defined. \<open>new window.AMap.Bounds(...bounds)\<close> allocates an instance whose constructor
  arguments are the elements of the array.
\<close>

definition parseMapOptions :: "bool \<Rightarrow> heap \<Rightarrow> object \<Rightarrow> object \<times> heap" where
  "parseMapOptions amapDefined h props =
     (let mapOptions = omit (mapLoaderKeys @ mapEventKeys) props;
          bounds = get mapOptions ''bounds'';
          (newBounds, h') =
             (if \<not> amapDefined then (Undefined, h)
              else if instanceOf h bounds AMap_Bounds then (bounds, h)
              else (case deref h bounds of
                      Some (Arr xs) \<Rightarrow>
                        (let (a, h1) = alloc (Inst AMap_Bounds xs) h in (Ref a, h1))
                    | _ \<Rightarrow> (bounds, h)));
          boundsProp = (if \<not> amapDefined then Undefined else bounds)
      in (AList.update ''boundsProp'' boundsProp (AList.update ''bounds'' newBounds mapOptions),
          h'))"

text \<open>
  \<open>updateMapWithAPI(apiName, previousCompareProp, nextCompareProp, nextProp)\<close>. The last
  argument is \<open>None\<close> when the call passes three arguments.
\<close>

definition updateMapWithAPI ::
  "utils \<Rightarrow> heap \<Rightarrow> jsval \<Rightarrow> string \<Rightarrow> jsval \<Rightarrow> jsval \<Rightarrow> jsval option \<Rightarrow> call list" where
  "updateMapWithAPI U h this_map apiName previousCompareProp nextCompareProp nextPropArg =
     (let nextProp = (case nextPropArg of None \<Rightarrow> nextCompareProp | Some v \<Rightarrow> v)
      in if \<not> isShallowEqual U h previousCompareProp nextCompareProp
         then (if apiName = ''setCenter'' \<and> \<not> truthy nextProp then []
               else [Invoke this_map apiName [nextProp]])
         else [])"

text \<open>
  Modelled from the spec: \<open>utils/createEventCallback\<close> is not among the sources. The
  function it returns for a callback name and an instance is kept as an opaque value that
  records both ("event listener bridging").
\<close>

definition createEventCallback :: "string \<Rightarrow> jsval \<Rightarrow> jsval" where
  "createEventCallback name instance = EventCallback name instance"

section \<open>Event listener bridging (utils/instanceEventHandler)\<close>

text \<open>An element of the listener list: \<open>{ eventName, handler }\<close>.\<close>

record listener =
  eventName :: string
  handler :: jsval

text \<open>
  \<open>String.prototype.toLowerCase\<close>. The characters of a string here are the code units
  below 256 (the Latin-1 range). Among them the upper-case letters are \<open>A\<close> to \<open>Z\<close> (65 to
  90) and U+00C0 to U+00DE without the multiplication sign U+00D7 (192 to 222 without 215);
  the lower-case letter of each is 32 further, and every other character is left as it is.
  \<open>key.substring(2)\<close> is \<open>drop 2\<close> (a shorter key gives the empty string).
\<close>

definition toLowerCase :: "string \<Rightarrow> string" where
  "toLowerCase s =
     map (\<lambda>c. let n = (of_char c :: nat)
              in if (65 \<le> n \<and> n \<le> 90) \<or> (192 \<le> n \<and> n \<le> 222 \<and> n \<noteq> 215)
                 then char_of (n + 32) else c) s"

definition bindInstanceEvent :: "jsval \<Rightarrow> object \<Rightarrow> listener list \<Rightarrow> call list \<times> listener list" where
  "bindInstanceEvent instance eventCallbacks eventCBList =
     fold (\<lambda>key (cs, l).
             (let eventName = toLowerCase (drop 2 key);
                  handler = get eventCallbacks key
              in (cs @ [Invoke instance ''on'' [Str eventName, handler]],
                  l @ [\<lparr>eventName = eventName, handler = handler\<rparr>])))
          (keys eventCallbacks) ([], eventCBList)"

definition removeInstanceEvent :: "jsval \<Rightarrow> listener list \<Rightarrow> call list" where
  "removeInstanceEvent instance eventCBList =
     map (\<lambda>listener. Invoke instance ''off'' [Str (eventName listener), handler listener])
       eventCBList"

section \<open>The AMap component\<close>

text \<open>
  The component together with the part of the browser it reads and writes: the heap,
  whether \<open>window.AMap\<close> is defined, and the script elements it has appended. The
  \<open>progress\<close> field is the \<open>await\<close> at which \<open>initAMap\<close> is suspended.
\<close>

datatype lifecycle = Constructed | Mounted | Unmounted

datatype sstatus = NotRequested | Loading | Loaded | Failed

datatype progress = NotStarted | AwaitRequireAMap | AwaitAMapUI | AwaitLoca | Finished

record amap =
  hp :: heap
  windowAMap :: bool
  scripts :: "script \<Rightarrow> sstatus"
  lifecycle :: lifecycle
  progress :: progress
  this_props :: object
  state_map :: jsval
  this_map :: jsval
  mapOptions :: object
  AMapEventListeners :: "listener list option"
  eventCallbacks :: "object option"
  mapContainer :: jsval

text \<open>The constructor: \<open>state.map\<close> is undefined and the options are parsed once.\<close>

definition AMap_constructor :: "bool \<Rightarrow> heap \<Rightarrow> jsval \<Rightarrow> object \<Rightarrow> amap" where
  "AMap_constructor amapDefined h container p =
     (let (mo, h') = parseMapOptions amapDefined h p
      in \<lparr>hp = h', windowAMap = amapDefined, scripts = (\<lambda>s. NotRequested),
          lifecycle = Constructed, progress = NotStarted, this_props = p, state_map = Undefined,
          this_map = Undefined, mapOptions = mo, AMapEventListeners = None,
          eventCallbacks = None, mapContainer = container\<rparr>)"

text \<open>\<open>componentDidUpdate\<close>: the thirteen diffs, in the order of the source.\<close>

definition componentDidUpdate :: "utils \<Rightarrow> amap \<Rightarrow> call list \<times> amap" where
  "componentDidUpdate U w =
     (if this_map w = Undefined then ([], w)
      else
        (let (nextMapOptions, h) = parseMapOptions (windowAMap w) (hp w) (this_props w);
             prev = get (mapOptions w);
             nxt = get nextMapOptions;
             upd = updateMapWithAPI U h (this_map w)
         in (upd ''setZoom'' (prev ''zoom'') (nxt ''zoom'') None
             @ upd ''setLabelzIndex'' (prev ''labelzIndex'') (nxt ''labelzIndex'') None
             @ upd ''setCenter'' (prev ''center'') (nxt ''center'') None
             @ upd ''setCity'' (prev ''city'') (nxt ''city'') None
             @ upd ''setBounds'' (prev ''boundsProp'') (nxt ''boundsProp'')
                 (Some (nxt ''bounds''))
             @ upd ''setLang'' (prev ''lang'') (nxt ''lang'') None
             @ upd ''setRotation'' (prev ''rotation'') (nxt ''rotation'') None
             @ upd ''setStatus'' (prev ''status'') (nxt ''status'') None
             @ upd ''setDefaultCursor'' (prev ''defaultCursor'') (nxt ''defaultCursor'') None
             @ upd ''setMapStyle'' (prev ''mapStyle'') (nxt ''mapStyle'') None
             @ upd ''setFeatures'' (prev ''features'') (nxt ''features'') None
             @ upd ''setDefaultLayer'' (prev ''defaultLayer'') (nxt ''defaultLayer'') None
             @ upd ''setPitch'' (prev ''pitch'') (nxt ''pitch'') None,
             w\<lparr>hp := h, mapOptions := nextMapOptions\<rparr>)))"

text \<open>
  \<open>componentWillUnmount\<close>. \<open>removeInstanceEvent\<close> calls \<open>forEach\<close> on the listener list,
  which raises a TypeError when the list was never assigned.
\<close>

definition AMap_componentWillUnmount :: "amap \<Rightarrow> error + call list" where
  "AMap_componentWillUnmount w =
     (let m = state_map w
      in if m \<noteq> Undefined
         then (case AMapEventListeners w of
                 None \<Rightarrow> Inl TypeError
               | Some ls \<Rightarrow> Inr (removeInstanceEvent m ls @ [Invoke m ''destroy'' []]))
         else Inr [])"

definition AMap_parseEvents :: "amap \<Rightarrow> object" where
  "AMap_parseEvents w = map (\<lambda>k. (k, createEventCallback k (this_map w))) mapEventKeys"

definition AMap_bindEvents :: "amap \<Rightarrow> call list \<times> amap" where
  "AMap_bindEvents w =
     (let cbs = AMap_parseEvents w;
          (cs, ls) = bindInstanceEvent (this_map w) cbs []
      in (cs, w\<lparr>AMapEventListeners := Some ls, eventCallbacks := Some cbs\<rparr>))"

text \<open>\<open>loadScript\<close>: a script element is appended; its promise is pending.\<close>

definition loadScript :: "script \<Rightarrow> amap \<Rightarrow> call list \<times> amap" where
  "loadScript s w = ([AppendScript s], w\<lparr>scripts := (scripts w)(s := Loading)\<rparr>)"

text \<open>
  The last part of \<open>initAMap\<close>, after its awaits (nothing is awaited any more, which is
  the progress \<open>Finished\<close>). First the map is constructed from a copy of the options and
  the events are bound on it.
\<close>

definition initAMap_newMap :: "amap \<Rightarrow> call list \<times> amap" where
  "initAMap_newMap w =
     (let (a, h) = alloc (Inst AMap_Map [mapContainer w]) (hp w);
          w1 = w\<lparr>hp := h, this_map := Ref a\<rparr>;
          (cs, w2) = AMap_bindEvents w1
      in (NewMap (mapContainer w) (mapOptions w) (Ref a) # cs, w2))"

text \<open>
  Then \<open>this.setState({ map: this.map })\<close>, as the host runs it. The component is a
  \<open>React.PureComponent\<close>: on a mounted component the state is updated (it changes, from
  undefined to the map), the component renders again and \<open>componentDidUpdate\<close> follows,
  with the props as they are; on a component that is no longer mounted the host drops the
  update.
\<close>

definition setState_map :: "utils \<Rightarrow> amap \<Rightarrow> call list \<times> amap" where
  "setState_map U w =
     (if lifecycle w = Mounted then componentDidUpdate U (w\<lparr>state_map := this_map w\<rparr>)
      else ([], w))"

definition initAMap_construct :: "utils \<Rightarrow> amap \<Rightarrow> call list \<times> amap" where
  "initAMap_construct U w =
     (let (cs, w1) = initAMap_newMap (w\<lparr>progress := Finished\<rparr>);
          (cs', w2) = setState_map U w1
      in (cs @ cs', w2))"

text \<open>
  \<open>initAMap\<close> as \<open>componentDidMount\<close> runs it: up to its first \<open>await\<close>, or to its end
  when \<open>window.AMap\<close> is already defined.
\<close>

definition initAMap :: "utils \<Rightarrow> amap \<Rightarrow> call list \<times> amap" where
  "initAMap U w =
     (if \<not> windowAMap w
      then (let (cs, w1) = loadScript MapsJs w in (cs, w1\<lparr>progress := AwaitRequireAMap\<rparr>))
      else initAMap_construct U w)"

definition componentDidMount :: "utils \<Rightarrow> amap \<Rightarrow> call list \<times> amap" where
  "componentDidMount U w = initAMap U w"

text \<open>
  \<open>initAMap\<close> resumed after \<open>await AMap.requireAMap(...)\<close>: both other scripts are
  requested, and the function waits for the UI promise.
\<close>

definition initAMap_afterRequireAMap :: "amap \<Rightarrow> call list \<times> amap" where
  "initAMap_afterRequireAMap w =
     (let (cs1, w1) = loadScript UiJs w;
          (cs2, w2) = loadScript LocaJs w1
      in (cs1 @ cs2, w2\<lparr>progress := AwaitAMapUI\<rparr>))"

text \<open>
  \<open>initAMap\<close> resumed after \<open>await AMapUI\<close>: \<open>await Loca\<close> passes at once when the Loca
  promise is already resolved.
\<close>

definition initAMap_afterAMapUI :: "utils \<Rightarrow> amap \<Rightarrow> call list \<times> amap" where
  "initAMap_afterAMapUI U w =
     (if scripts w LocaJs = Loaded then initAMap_construct U w
      else ([], w\<lparr>progress := AwaitLoca\<rparr>))"

text \<open>
  The \<open>onload\<close> handler of a script element resolves its promise. The maps script
  defines \<open>window.AMap\<close>; \<open>requireAMapUI\<close> calls \<open>window.initAMapUI()\<close> after its
  script has loaded and then resolves.
\<close>

definition onload :: "utils \<Rightarrow> script \<Rightarrow> amap \<Rightarrow> call list \<times> amap" where
  "onload U s w =
     (let w1 = w\<lparr>scripts := (scripts w)(s := Loaded)\<rparr>
      in case s of
           MapsJs \<Rightarrow>
             (let w2 = w1\<lparr>windowAMap := True\<rparr>
              in if progress w2 = AwaitRequireAMap then initAMap_afterRequireAMap w2
                 else ([], w2))
         | UiJs \<Rightarrow>
             (if progress w1 = AwaitAMapUI
              then (let (cs, w2) = initAMap_afterAMapUI U w1 in (InitAMapUI # cs, w2))
              else ([InitAMapUI], w1))
         | LocaJs \<Rightarrow>
             (if progress w1 = AwaitLoca then initAMap_construct U w1 else ([], w1)))"

text \<open>
  \<open>render\<close>: the context value, and what stands in \<open>{map !== void 0 && children}\<close>.
\<close>

definition AMap_render :: "amap \<Rightarrow> jsval \<times> jsval" where
  "AMap_render w =
     (let children = get (this_props w) ''children''; m = state_map w
      in (m, if m \<noteq> Undefined then children else Bool False))"

text \<open>
  What the host and the browser do to the component. An event is \<open>None\<close> in a state
  where it cannot occur: a component is mounted once and unmounted once, it is updated
  only while mounted, and a script element fires \<open>load\<close> or \<open>error\<close> once, after it was
  appended. No handler is installed for \<open>error\<close>.
\<close>

datatype event = DidMount | DidUpdate object | WillUnmount | Onload script | Onerror script

fun step :: "utils \<Rightarrow> event \<Rightarrow> amap \<Rightarrow> (call list \<times> amap) option" where
  "step U DidMount w =
     (if lifecycle w = Constructed then Some (componentDidMount U (w\<lparr>lifecycle := Mounted\<rparr>))
      else None)"
| "step U (DidUpdate p) w =
     (if lifecycle w = Mounted then Some (componentDidUpdate U (w\<lparr>this_props := p\<rparr>)) else None)"
| "step U WillUnmount w =
     (if lifecycle w = Mounted
      then Some (case AMap_componentWillUnmount w of
                   Inl e \<Rightarrow> [Uncaught e]
                 | Inr cs \<Rightarrow> cs,
                 w\<lparr>lifecycle := Unmounted\<rparr>)
      else None)"
| "step U (Onload s) w = (if scripts w s = Loading then Some (onload U s w) else None)"
| "step U (Onerror s) w =
     (if scripts w s = Loading then Some ([], w\<lparr>scripts := (scripts w)(s := Failed)\<rparr>)
      else None)"

text \<open>A run: the calls made, in order, and the final state.\<close>

fun run :: "utils \<Rightarrow> event list \<Rightarrow> amap \<Rightarrow> (call list \<times> amap) option" where
  "run U [] w = Some ([], w)"
| "run U (e # es) w =
     (case step U e w of
        None \<Rightarrow> None
      | Some (cs, w') \<Rightarrow>
          (case run U es w' of None \<Rightarrow> None | Some (cs', w'') \<Rightarrow> Some (cs @ cs', w'')))"

section \<open>The Marker component\<close>

text \<open>
  Modelled from the spec: \<open>utils/isNullVoid\<close> and \<open>utils/breakIfNotChildOfAMap\<close> are
  not among the sources. The first is true of \<open>null\<close> and \<open>undefined\<close> ("changing label
  to either null or undefined clears label", in the source of the component); the second
  raises when the context holds no map.
\<close>

definition isNullVoid :: "jsval \<Rightarrow> bool" where
  "isNullVoid v = (v = Null \<or> v = Undefined)"

definition breakIfNotChildOfAMap :: "string \<Rightarrow> jsval \<Rightarrow> error option" where
  "breakIfNotChildOfAMap name m = (if m = Undefined then Some NotChildOfAMap else None)"

definition NEED_DEEP_COPY_FIELDS :: "string list" where
  "NEED_DEEP_COPY_FIELDS = [''position'']"

definition markerEventKeys :: "string list" where
  "markerEventKeys = [''onComplete'', ''onClick'', ''onDblClick'', ''onRightClick'',
     ''onMouseMove'', ''onMouseOver'', ''onMouseOut'', ''onMouseDown'', ''onMouseUp'',
     ''onDragStart'', ''onDragging'', ''onDragEnd'', ''onMoving'', ''onMoveEnd'',
     ''onMoveAlong'', ''onTouchStart'', ''onTouchMove'', ''onTouchEnd'']"

text \<open>
  Reading a named property \<open>v.k\<close> of a value that is not null or undefined: an object
  literal answers with its own property; the properties of SDK instances are the SDK's
  and read as undefined here, as do those of arrays and primitives.
\<close>

definition getProp :: "heap \<Rightarrow> jsval \<Rightarrow> string \<Rightarrow> jsval" where
  "getProp h v k = (case deref h v of Some (Obj kvs) \<Rightarrow> get kvs k | _ \<Rightarrow> Undefined)"

text \<open>Index keys of arrays and strings, for the spread \<open>{...v}\<close>.\<close>

function decimal :: "nat \<Rightarrow> string" where
  "decimal n =
     (if n < 10 then [char_of (48 + n)] else decimal (n div 10) @ [char_of (48 + n mod 10)])"
  by pat_completeness auto
termination
  by (relation "measure id") auto

definition indexed :: "jsval list \<Rightarrow> object" where
  "indexed xs = zip (map decimal [0..<length xs]) xs"

definition spread :: "heap \<Rightarrow> jsval \<Rightarrow> object" where
  "spread h v =
     (case deref h v of
        Some (Obj kvs) \<Rightarrow> kvs
      | Some (Arr xs) \<Rightarrow> indexed xs
      | Some (Inst c args) \<Rightarrow> []
      | None \<Rightarrow> (case v of Str s \<Rightarrow> indexed (map (\<lambda>c. Str [c]) s) | _ \<Rightarrow> []))"

text \<open>
  The three-way test that \<open>parseMarkerOptions\<close> writes out three times (for
  \<open>icon.imageOffset\<close>, \<open>label.offset\<close> and \<open>offset\<close>): a Pixel is kept, an array is
  spread into \<open>new window.AMap.Pixel(...)\<close>, anything else gives the default Pixel.
\<close>

definition toPixel :: "heap \<Rightarrow> jsval \<Rightarrow> jsval list \<Rightarrow> jsval \<times> heap" where
  "toPixel h v dflt =
     (if instanceOf h v AMap_Pixel then (v, h)
      else (case deref h v of
              Some (Arr xs) \<Rightarrow> (let (a, h1) = alloc (Inst AMap_Pixel xs) h in (Ref a, h1))
            | _ \<Rightarrow> (let (a, h1) = alloc (Inst AMap_Pixel dflt) h in (Ref a, h1))))"

text \<open>
  \<open>Marker.parseMarkerOptions(props)\<close>. The component is only constructed below an
  existing map, so \<open>window.AMap\<close> is defined when this runs. The values of the \<open>icon\<close>
  and \<open>label\<close> fields are computed by two immediately invoked functions, which are
  \<open>markerIcon\<close> and \<open>markerLabel\<close> here. The default \<open>label = {}\<close> applies to an
  undefined label only.
\<close>

definition markerIcon :: "heap \<Rightarrow> jsval \<Rightarrow> jsval \<times> heap" where
  "markerIcon h icon =
     (if isNullVoid icon then (Null, h)
      else if instanceOf h icon AMap_Icon then (icon, h)
      else (let (imageOffset, ha) = toPixel h (getProp h icon ''imageOffset'') [Num 0, Num 0];
                (oa, hb) = alloc (Obj [(''image'', getProp h icon ''image''),
                                      (''imageOffset'', imageOffset),
                                      (''imageSize'', getProp h icon ''imageSize''),
                                      (''size'', getProp h icon ''size'')]) ha;
                (ia, hc) = alloc (Inst AMap_Icon [Ref oa]) hb
            in (Ref ia, hc)))"

definition markerLabel :: "heap \<Rightarrow> jsval \<Rightarrow> jsval \<times> heap" where
  "markerLabel h label =
     (if isNullVoid label then (Null, h)
      else (let (labelOffset, ha) = toPixel h (getProp h label ''offset'') [Num 0, Num 0];
                (la, hb) = alloc (Obj (AList.update ''offset'' labelOffset (spread h label))) ha
            in (Ref la, hb)))"

definition parseMarkerOptions :: "heap \<Rightarrow> object \<Rightarrow> object \<times> heap" where
  "parseMarkerOptions h props =
     (let markerOptions = omit markerEventKeys props;
          icon = get markerOptions ''icon'';
          (label, h0) =
             (if get markerOptions ''label'' = Undefined
              then (let (a, h') = alloc (Obj []) h in (Ref a, h'))
              else (get markerOptions ''label'', h));
          offset = get markerOptions ''offset'';
          (newIcon, h1) = markerIcon h0 icon;
          (newLabel, h2) = markerLabel h1 label;
          (newOffset, h3) = toPixel h2 offset [Num (- 10), Num (- 34)]
      in (AList.update ''offset'' newOffset
            (AList.update ''label'' newLabel (AList.update ''icon'' newIcon markerOptions)),
          h3))"

record marker_comp =
  mhp :: heap
  markerOptions :: object
  marker :: jsval
  marker_listeners :: "listener list"

text \<open>\<open>initMarker(map)\<close>: the options are copied before the SDK sees them.\<close>

definition initMarker ::
  "utils \<Rightarrow> heap \<Rightarrow> object \<Rightarrow> object \<Rightarrow> jsval \<Rightarrow> error + call list \<times> jsval \<times> heap" where
  "initMarker U h mo p m =
     (let visible = get p ''visible''
      in case cloneDeep U h mo NEED_DEEP_COPY_FIELDS of
           Inl e \<Rightarrow> Inl e
         | Inr (newMarkerOptions, h1) \<Rightarrow>
             (let (a, h2) = alloc (Inst AMap_Marker []) h1;
                  mk = Ref a
              in Inr ([NewMarker newMarkerOptions mk, Invoke mk ''setMap'' [m]]
                      @ (if visible = Bool False then [Invoke mk ''hide'' []] else []),
                      mk, h2)))"

definition markerBoundKeys :: "string list" where
  "markerBoundKeys = [''onClick'', ''onDblClick'', ''onRightClick'',
     ''onMouseMove'', ''onMouseOver'', ''onMouseOut'', ''onMouseDown'', ''onMouseUp'',
     ''onDragStart'', ''onDragging'', ''onDragEnd'', ''onMoving'', ''onMoveEnd'',
     ''onMoveAlong'', ''onTouchStart'', ''onTouchMove'', ''onTouchEnd'']"

definition Marker_parseEvents :: "jsval \<Rightarrow> object" where
  "Marker_parseEvents mk = map (\<lambda>k. (k, createEventCallback k mk)) markerBoundKeys"

definition Marker_bindEvents :: "jsval \<Rightarrow> call list \<times> listener list" where
  "Marker_bindEvents mk = bindInstanceEvent mk (Marker_parseEvents mk) []"

definition isFunction :: "jsval \<Rightarrow> bool" where
  "isFunction v = (case v of Fn n \<Rightarrow> True | EventCallback k i \<Rightarrow> True | _ \<Rightarrow> False)"

text \<open>The constructor; its second argument is the context (the map).\<close>

definition Marker_constructor ::
  "utils \<Rightarrow> heap \<Rightarrow> object \<Rightarrow> jsval \<Rightarrow> error + call list \<times> marker_comp" where
  "Marker_constructor U h p m =
     (case breakIfNotChildOfAMap ''Marker'' m of
        Some e \<Rightarrow> Inl e
      | None \<Rightarrow>
          (let onComplete = get p ''onComplete'';
               (mo, h1) = parseMarkerOptions h p
           in case initMarker U h1 mo p m of
                Inl e \<Rightarrow> Inl e
              | Inr (cs, mk, h2) \<Rightarrow>
                  (let (cs', ls) = Marker_bindEvents mk
                   in Inr (cs @ cs' @ (if isFunction onComplete then [Apply onComplete [m, mk]]
                                       else []),
                           \<lparr>mhp = h2, markerOptions = mo, marker = mk,
                            marker_listeners = ls\<rparr>))))"

definition toggleVisible :: "utils \<Rightarrow> heap \<Rightarrow> jsval \<Rightarrow> jsval \<Rightarrow> jsval \<Rightarrow> call list" where
  "toggleVisible U h mk previousProp nextProp =
     (if \<not> isShallowEqual U h previousProp nextProp
      then (if nextProp = Bool True then [Invoke mk ''show'' []] else [])
           @ (if nextProp = Bool False then [Invoke mk ''hide'' []] else [])
      else [])"

definition updateMarkerWithAPI ::
  "utils \<Rightarrow> heap \<Rightarrow> jsval \<Rightarrow> string \<Rightarrow> jsval \<Rightarrow> jsval \<Rightarrow> jsval \<Rightarrow> call list" where
  "updateMarkerWithAPI U h mk apiName previousProp nextProp newProp =
     (if \<not> isShallowEqual U h previousProp nextProp then [Invoke mk apiName [newProp]]
      else [])"

text \<open>
  \<open>shouldComponentUpdate(nextProps)\<close>: the calls it makes, the component afterwards and
  the value it returns.
\<close>

definition shouldComponentUpdate ::
  "utils \<Rightarrow> marker_comp \<Rightarrow> object \<Rightarrow> error + call list \<times> marker_comp \<times> bool" where
  "shouldComponentUpdate U st nextProps =
     (let (nextMarkerOptions, h1) = parseMarkerOptions (mhp st) nextProps
      in case cloneDeep U h1 nextMarkerOptions NEED_DEEP_COPY_FIELDS of
           Inl e \<Rightarrow> Inl e
         | Inr (newMarkerOptions, h) \<Rightarrow>
             (let prev = get (markerOptions st);
                  nxt = get nextMarkerOptions;
                  new = get newMarkerOptions;
                  upd = updateMarkerWithAPI U h (marker st)
              in Inr (toggleVisible U h (marker st) (prev ''visible'') (nxt ''visible'')
                      @ upd ''setAnchor'' (prev ''anchor'') (nxt ''anchor'') (new ''anchor'')
                      @ upd ''setOffset'' (prev ''offset'') (nxt ''offset'') (new ''offset'')
                      @ upd ''setAnimation'' (prev ''animation'') (nxt ''animation'')
                          (new ''animation'')
                      @ upd ''setClickable'' (prev ''clickable'') (nxt ''clickable'')
                          (new ''clickable'')
                      @ upd ''setPosition'' (prev ''position'') (nxt ''position'')
                          (new ''position'')
                      @ upd ''setAngle'' (prev ''angle'') (nxt ''angle'') (new ''angle'')
                      @ upd ''setLabel'' (prev ''label'') (nxt ''label'') (new ''label'')
                      @ upd ''setzIndex'' (prev ''zIndex'') (nxt ''zIndex'') (new ''zIndex'')
                      @ upd ''setIcon'' (prev ''icon'') (nxt ''icon'') (new ''icon'')
                      @ upd ''setDraggable'' (prev ''draggable'') (nxt ''draggable'')
                          (new ''draggable'')
                      @ upd ''setCursor'' (prev ''cursor'') (nxt ''cursor'') (new ''cursor'')
                      @ upd ''setContent'' (prev ''content'') (nxt ''content'') (new ''content'')
                      @ upd ''setTitle'' (prev ''title'') (nxt ''title'') (new ''title'')
                      @ upd ''setShadow'' (prev ''shadow'') (nxt ''shadow'') (new ''shadow'')
                      @ upd ''setShape'' (prev ''shape'') (nxt ''shape'') (new ''shape'')
                      @ upd ''setExtData'' (prev ''extData'') (nxt ''extData'') (new ''extData''),
                      st\<lparr>mhp := h, markerOptions := nextMarkerOptions\<rparr>,
                      False)))"

definition Marker_componentWillUnmount :: "marker_comp \<Rightarrow> call list \<times> marker_comp" where
  "Marker_componentWillUnmount st =
     (removeInstanceEvent (marker st) (marker_listeners st)
      @ [Invoke (marker st) ''setMap'' [Null]],
      st\<lparr>marker := Null\<rparr>)"

definition Marker_render :: "marker_comp \<Rightarrow> jsval" where
  "Marker_render st = Null"

section \<open>The helpers that are not among the sources, and the SDK's listeners\<close>

text \<open>
  Modelled from the spec: \<open>utils/isShallowEqual\<close> is not among the sources. The
  components "diff on update via shallow-equality checks": two values are shallow-equal
  when they are the same value, or are two arrays with the same elements, or two object
  literals with the same keys and the same value under each key.
\<close>

definition isShallowEqual_spec :: "heap \<Rightarrow> jsval \<Rightarrow> jsval \<Rightarrow> bool" where
  "isShallowEqual_spec h a b =
     (a = b \<or>
      (case (deref h a, deref h b) of
         (Some (Arr xs), Some (Arr ys)) \<Rightarrow> xs = ys
       | (Some (Obj kvs), Some (Obj kvs')) \<Rightarrow>
           length kvs = length kvs' \<and>
           list_all (\<lambda>kv. map_of kvs' (fst kv) = Some (snd kv)) kvs
       | _ \<Rightarrow> False))"

text \<open>
  Modelled from the spec: \<open>utils/cloneDeep\<close> is not among the sources. The options
  object "is copied with the 'position' field deep-cloned": the copy has the same keys, and
  under each of the named fields a value in which every array, object literal and SDK
  instance reachable from the original is a new heap cell. The recursion follows the
  references; its depth is bounded by the number of cells of the heap, which is enough for
  every value without a reference cycle, and a value with a cycle exhausts it (the RangeError
  of unbounded recursion).
\<close>

fun deepClone :: "nat \<Rightarrow> heap \<Rightarrow> jsval \<Rightarrow> (jsval \<times> heap) option"
  and deepCloneList :: "nat \<Rightarrow> heap \<Rightarrow> jsval list \<Rightarrow> (jsval list \<times> heap) option" where
  "deepClone 0 h v = (case deref h v of None \<Rightarrow> Some (v, h) | Some ob \<Rightarrow> None)"
| "deepClone (Suc n) h v =
     (case deref h v of
        None \<Rightarrow> Some (v, h)
      | Some (Arr xs) \<Rightarrow>
          (case deepCloneList n h xs of
             None \<Rightarrow> None
           | Some (ys, h1) \<Rightarrow> (let (a, h2) = alloc (Arr ys) h1 in Some (Ref a, h2)))
      | Some (Obj kvs) \<Rightarrow>
          (case deepCloneList n h (map snd kvs) of
             None \<Rightarrow> None
           | Some (ys, h1) \<Rightarrow>
               (let (a, h2) = alloc (Obj (zip (map fst kvs) ys)) h1 in Some (Ref a, h2)))
      | Some (Inst c args) \<Rightarrow>
          (case deepCloneList n h args of
             None \<Rightarrow> None
           | Some (ys, h1) \<Rightarrow> (let (a, h2) = alloc (Inst c ys) h1 in Some (Ref a, h2))))"
| "deepCloneList n h [] = Some ([], h)"
| "deepCloneList n h (x # xs) =
     (case deepClone n h x of
        None \<Rightarrow> None
      | Some (y, h1) \<Rightarrow>
          (case deepCloneList n h1 xs of
             None \<Rightarrow> None
           | Some (ys, h2) \<Rightarrow> Some (y # ys, h2)))"

fun cloneFields :: "string list \<Rightarrow> heap \<Rightarrow> object \<Rightarrow> error + object \<times> heap" where
  "cloneFields fs h [] = Inr ([], h)"
| "cloneFields fs h ((k, v) # kvs) =
     (if k \<in> set fs
      then (case deepClone (length h) h v of
              None \<Rightarrow> Inl RangeError
            | Some (v', h1) \<Rightarrow>
                (case cloneFields fs h1 kvs of
                   Inl e \<Rightarrow> Inl e
                 | Inr (kvs', h2) \<Rightarrow> Inr ((k, v') # kvs', h2)))
      else (case cloneFields fs h kvs of
              Inl e \<Rightarrow> Inl e
            | Inr (kvs', h2) \<Rightarrow> Inr ((k, v) # kvs', h2)))"

definition cloneDeep_spec :: "heap \<Rightarrow> object \<Rightarrow> string list \<Rightarrow> error + object \<times> heap" where
  "cloneDeep_spec h ob fs = cloneFields fs h ob"

definition utils_spec :: utils where
  "utils_spec = \<lparr>isShallowEqual = isShallowEqual_spec, cloneDeep = cloneDeep_spec\<rparr>"

text \<open>
  The references that a cell holds, and the cells that a value reaches through references.
\<close>

fun refs_of :: "hobj \<Rightarrow> jsval list" where
  "refs_of (Obj kvs) = map snd kvs"
| "refs_of (Arr xs) = xs"
| "refs_of (Inst c args) = args"

inductive reaches :: "heap \<Rightarrow> jsval \<Rightarrow> nat \<Rightarrow> bool" for h :: heap where
  reaches_root: "a < length h \<Longrightarrow> reaches h (Ref a) a"
| reaches_step: "reaches h v a \<Longrightarrow> Ref b \<in> set (refs_of (h ! a)) \<Longrightarrow> b < length h \<Longrightarrow> reaches h v b"

text \<open>
  A heap without dangling references: every reference in a cell, and in a value or an
  options object held outside the heap, is the address of a cell. The cells from \<open>n\<close> on
  form a region of their own when their references stay in that region.
\<close>

definition valid :: "heap \<Rightarrow> jsval \<Rightarrow> bool" where
  "valid h v = (case v of Ref a \<Rightarrow> a < length h | _ \<Rightarrow> True)"

definition closed_heap :: "heap \<Rightarrow> bool" where
  "closed_heap h = list_all (\<lambda>ob. list_all (valid h) (refs_of ob)) h"

definition valid_object :: "heap \<Rightarrow> object \<Rightarrow> bool" where
  "valid_object h ob = list_all (\<lambda>kv. valid h (snd kv)) ob"

definition fresh :: "nat \<Rightarrow> heap \<Rightarrow> jsval \<Rightarrow> bool" where
  "fresh n h v = (case v of Ref a \<Rightarrow> n \<le> a \<and> a < length h | _ \<Rightarrow> True)"

definition region_closed :: "nat \<Rightarrow> heap \<Rightarrow> bool" where
  "region_closed n h = list_all (\<lambda>ob. list_all (fresh n h) (refs_of ob)) (drop n h)"

text \<open>
  What the SDK may do to the objects it was handed: a list of writes, each replacing the
  cell at an address by an arbitrary object.
\<close>

definition mutate :: "(nat \<times> hobj) list \<Rightarrow> heap \<Rightarrow> heap" where
  "mutate ws h = fold (\<lambda>w hm. hm[fst w := snd w]) ws h"

text \<open>
  The SDK is outside the repository. Its event interface is taken as documented:
  \<open>instance.on(name, f)\<close> registers \<open>f\<close> under \<open>name\<close>, and \<open>instance.off(name, f)\<close>
  removes one such registration. \<open>listenersAfter i cs M\<close> are the registrations on the
  instance \<open>i\<close> after the calls \<open>cs\<close>, when they were \<open>M\<close> before.
\<close>

definition deliver :: "jsval \<Rightarrow> call \<Rightarrow> listener multiset \<Rightarrow> listener multiset" where
  "deliver i c M =
     (case c of
        Invoke r name args \<Rightarrow>
          (case args of
             [Str n, f] \<Rightarrow>
               (if r = i \<and> name = ''on'' then M + {#\<lparr>eventName = n, handler = f\<rparr>#}
                else if r = i \<and> name = ''off'' then M - {#\<lparr>eventName = n, handler = f\<rparr>#}
                else M)
           | _ \<Rightarrow> M)
      | _ \<Rightarrow> M)"

definition listenersAfter :: "jsval \<Rightarrow> call list \<Rightarrow> listener multiset \<Rightarrow> listener multiset" where
  "listenersAfter i cs M = fold (deliver i) cs M"

section \<open>Invariants of the AMap component\<close>

text \<open>
  Whenever the state holds a map, it is the map of the instance, and the listener list is
  the one that \<open>bindEvents\<close> built for it. The instance holds a map only once \<open>initAMap\<close>
  has finished, and \<open>initAMap\<close> has not started before the component is mounted.
\<close>

definition wired :: "amap \<Rightarrow> bool" where
  "wired w =
     ((state_map w \<noteq> Undefined \<longrightarrow>
         state_map w = this_map w \<and>
         AMapEventListeners w =
           Some (snd (bindInstanceEvent (this_map w) (AMap_parseEvents w) []))) \<and>
      (this_map w \<noteq> Undefined \<longrightarrow> progress w = Finished) \<and>
      (lifecycle w = Constructed \<longrightarrow> progress w = NotStarted))"

text \<open>
  For a component constructed while \<open>window.AMap\<close> is undefined: what the scripts are
  doing at each \<open>await\<close> of \<open>initAMap\<close>, and that the map exists only at the end.
\<close>

definition loading_inv :: "amap \<Rightarrow> bool" where
  "loading_inv w =
     (case progress w of
        NotStarted \<Rightarrow>
          lifecycle w = Constructed \<and> \<not> windowAMap w \<and> scripts w MapsJs = NotRequested \<and>
          scripts w UiJs = NotRequested \<and> scripts w LocaJs = NotRequested \<and>
          this_map w = Undefined
      | AwaitRequireAMap \<Rightarrow>
          lifecycle w \<noteq> Constructed \<and>
          (scripts w MapsJs = Loading \<or> scripts w MapsJs = Failed) \<and>
          scripts w UiJs = NotRequested \<and> scripts w LocaJs = NotRequested \<and>
          this_map w = Undefined
      | AwaitAMapUI \<Rightarrow>
          lifecycle w \<noteq> Constructed \<and> scripts w MapsJs = Loaded \<and>
          (scripts w UiJs = Loading \<or> scripts w UiJs = Failed) \<and>
          scripts w LocaJs \<noteq> NotRequested \<and> this_map w = Undefined
      | AwaitLoca \<Rightarrow>
          lifecycle w \<noteq> Constructed \<and> scripts w MapsJs = Loaded \<and>
          scripts w UiJs = Loaded \<and>
          (scripts w LocaJs = Loading \<or> scripts w LocaJs = Failed) \<and>
          this_map w = Undefined
      | Finished \<Rightarrow>
          lifecycle w \<noteq> Constructed \<and> scripts w MapsJs = Loaded \<and>
          scripts w UiJs = Loaded \<and> scripts w LocaJs = Loaded \<and> this_map w \<noteq> Undefined)"

section \<open>The diffed options\<close>

text \<open>
  For each setter of the map: its name, the option whose values are compared and the
  option whose next value is passed.
\<close>

definition mapDiffs :: "(string \<times> string \<times> string) list" where
  "mapDiffs = [(''setZoom'', ''zoom'', ''zoom''),
     (''setLabelzIndex'', ''labelzIndex'', ''labelzIndex''),
     (''setCenter'', ''center'', ''center''),
     (''setCity'', ''city'', ''city''),
     (''setBounds'', ''boundsProp'', ''bounds''),
     (''setLang'', ''lang'', ''lang''),
     (''setRotation'', ''rotation'', ''rotation''),
     (''setStatus'', ''status'', ''status''),
     (''setDefaultCursor'', ''defaultCursor'', ''defaultCursor''),
     (''setMapStyle'', ''mapStyle'', ''mapStyle''),
     (''setFeatures'', ''features'', ''features''),
     (''setDefaultLayer'', ''defaultLayer'', ''defaultLayer''),
     (''setPitch'', ''pitch'', ''pitch'')]"

text \<open>For each setter of the marker: its name and its option.\<close>

definition markerDiffs :: "(string \<times> string) list" where
  "markerDiffs = [(''setAnchor'', ''anchor''), (''setOffset'', ''offset''),
     (''setAnimation'', ''animation''), (''setClickable'', ''clickable''),
     (''setPosition'', ''position''), (''setAngle'', ''angle''), (''setLabel'', ''label''),
     (''setzIndex'', ''zIndex''), (''setIcon'', ''icon''), (''setDraggable'', ''draggable''),
     (''setCursor'', ''cursor''), (''setContent'', ''content''), (''setTitle'', ''title''),
     (''setShadow'', ''shadow''), (''setShape'', ''shape''), (''setExtData'', ''extData'')]"

text \<open>Whether a call is the invocation of a given method on a given instance.\<close>

definition invokes :: "jsval \<Rightarrow> string \<Rightarrow> call list \<Rightarrow> bool" where
  "invokes i name cs = list_ex (\<lambda>c. case c of Invoke r n args \<Rightarrow> r = i \<and> n = name | _ \<Rightarrow> False) cs"

section \<open>The calls along the life of a map\<close>


definition map_binds :: "jsval \<Rightarrow> call list \<times> listener list" where
  "map_binds m =
     bindInstanceEvent m (map (\<lambda>k. (k, createEventCallback k m)) mapEventKeys) []"


section \<open>Concrete states for the examples\<close>

text \<open>
  A map created before the SDK is loaded, with a zoom, a centre (the array in cell 0), bounds
  (the array of two arrays in cell 1) and a click handler.
\<close>

definition ex_props :: object where
  "ex_props = [(''appKey'', Str ''k''), (''zoom'', Num 3), (''center'', Ref 0),
     (''bounds'', Ref 1), (''onClick'', Fn 7)]"

definition ex_heap :: heap where
  "ex_heap = [Arr [Num 120, Num 30], Arr [Ref 2, Ref 3], Arr [Num 119, Num 29],
     Arr [Num 121, Num 31]]"

definition ex_init :: amap where
  "ex_init = AMap_constructor False ex_heap Undefined ex_props"

text \<open>The options parsed by the constructor, while \<open>window.AMap\<close> is undefined.\<close>

definition ex_options :: object where
  "ex_options = [(''zoom'', Num 3), (''center'', Ref 0), (''bounds'', Undefined),
     (''boundsProp'', Undefined)]"

text \<open>
  The component after it was mounted and the three scripts have loaded, when \<open>initAMap\<close>
  has constructed the map and \<open>setState\<close> has put it into the state.
\<close>

definition ex_loaded :: amap where
  "ex_loaded =
     \<lparr>hp = ex_heap @ [Inst AMap_Map [Undefined]], windowAMap = True,
      scripts = (\<lambda>s. Loaded), lifecycle = Mounted, progress = Finished,
      this_props = ex_props, state_map = Ref 4, this_map = Ref 4,
      mapOptions = ex_options,
      AMapEventListeners =
        Some (snd (bindInstanceEvent (Ref 4)
                     (map (\<lambda>k. (k, createEventCallback k (Ref 4))) mapEventKeys) [])),
      eventCallbacks = Some (map (\<lambda>k. (k, createEventCallback k (Ref 4))) mapEventKeys),
      mapContainer = Undefined\<rparr>"

text \<open>
  The options after the update that follows, with the same props, and the component then.
\<close>

definition ex_options1 :: object where
  "ex_options1 = [(''zoom'', Num 3), (''center'', Ref 0), (''bounds'', Ref 5),
     (''boundsProp'', Ref 1)]"

definition ex_first :: amap where
  "ex_first = ex_loaded\<lparr>hp := ex_heap @ [Inst AMap_Map [Undefined], Inst AMap_Bounds [Ref 2, Ref 3]],
                        mapOptions := ex_options1\<rparr>"

text \<open>New props: zoom 0, no centre, the same bounds; and the component that receives them.\<close>

definition ex_props2 :: object where
  "ex_props2 = [(''appKey'', Str ''k''), (''zoom'', Num 0), (''bounds'', Ref 1)]"

definition ex_options2 :: object where
  "ex_options2 = [(''zoom'', Num 0), (''bounds'', Ref 6), (''boundsProp'', Ref 1)]"

definition ex_live :: amap where
  "ex_live = ex_first\<lparr>this_props := ex_props2\<rparr>"

definition ex_live_heap :: heap where
  "ex_live_heap = ex_heap @ [Inst AMap_Map [Undefined], Inst AMap_Bounds [Ref 2, Ref 3],
     Inst AMap_Bounds [Ref 2, Ref 3]]"

text \<open>
  A marker below the map in cell 2, with a position (the array in cell 0), a Pixel as
  offset (cell 1), no label and no icon. Its constructor clones the position into cell 3
  and the marker is cell 4.
\<close>

definition ex_marker_props :: object where
  "ex_marker_props = [(''position'', Ref 0), (''title'', Str ''a''), (''label'', Null),
     (''offset'', Ref 1), (''visible'', Bool True), (''onClick'', Fn 7)]"

definition ex_marker_heap :: heap where
  "ex_marker_heap = [Arr [Num 120, Num 30], Inst AMap_Pixel [Num 0, Num 0],
     Inst AMap_Map [Undefined]]"

definition ex_marker_options :: object where
  "ex_marker_options = [(''position'', Ref 0), (''title'', Str ''a''), (''label'', Null),
        (''offset'', Ref 1), (''visible'', Bool True), (''icon'', Null)]"

definition ex_marker_handed :: object where
  "ex_marker_handed = [(''position'', Ref 3), (''title'', Str ''a''), (''label'', Null),
        (''offset'', Ref 1), (''visible'', Bool True), (''icon'', Null)]"

definition ex_marker :: marker_comp where
  "ex_marker =
     \<lparr>mhp = ex_marker_heap @ [Arr [Num 120, Num 30], Inst AMap_Marker []],
      markerOptions = ex_marker_options,
      marker = Ref 4,
      marker_listeners = snd (Marker_bindEvents (Ref 4))\<rparr>"

text \<open>The same marker with a new title; the position is cloned into cell 5.\<close>

definition ex_marker_props2 :: object where
  "ex_marker_props2 = [(''position'', Ref 0), (''title'', Str ''b''), (''label'', Null),
     (''offset'', Ref 1), (''visible'', Bool True), (''onClick'', Fn 7)]"

definition ex_marker_options2 :: object where
  "ex_marker_options2 = [(''position'', Ref 0), (''title'', Str ''b''), (''label'', Null),
        (''offset'', Ref 1), (''visible'', Bool True), (''icon'', Null)]"

definition ex_marker_handed2 :: object where
  "ex_marker_handed2 = [(''position'', Ref 5), (''title'', Str ''b''), (''label'', Null),
        (''offset'', Ref 1), (''visible'', Bool True), (''icon'', Null)]"

text \<open>
  The same marker once the caller has made a new position array (cell 5) and passes it in
  the props; the update clones it into cell 6.
\<close>

definition ex_moved :: marker_comp where
  "ex_moved = ex_marker\<lparr>mhp := mhp ex_marker @ [Arr [Num 121, Num 31]]\<rparr>"

definition ex_moved_props :: object where
  "ex_moved_props = [(''position'', Ref 5), (''title'', Str ''a''), (''label'', Null),
     (''offset'', Ref 1), (''visible'', Bool True), (''onClick'', Fn 7)]"

definition ex_moved_options :: object where
  "ex_moved_options = [(''position'', Ref 5), (''title'', Str ''a''), (''label'', Null),
        (''offset'', Ref 1), (''visible'', Bool True), (''icon'', Null)]"

definition ex_moved_handed :: object where
  "ex_moved_handed = [(''position'', Ref 6), (''title'', Str ''a''), (''label'', Null),
        (''offset'', Ref 1), (''visible'', Bool True), (''icon'', Null)]"

section \<open>Basic facts\<close>

lemma get_omit: "get (omit ks ob) k = (if k \<in> set ks then Undefined else get ob k)"
  by (induction ob) (auto simp: get_def omit_def)


lemma invokes_Nil [simp]: "invokes i name [] = False"
  by (simp add: invokes_def)

lemma invokes_append [simp]:
  "invokes i name (xs @ ys) = (invokes i name xs \<or> invokes i name ys)"
  by (simp add: invokes_def)

lemma invokes_Cons_Invoke [simp]:
  "invokes i name (Invoke r n args # cs) = ((r = i \<and> n = name) \<or> invokes i name cs)"
  by (simp add: invokes_def)

section \<open>Diffing in \<open>componentDidUpdate\<close>\<close>

lemma updateMapWithAPI_None:
  "updateMapWithAPI U h m api p n None = updateMapWithAPI U h m api p n (Some n)"
  by (simp add: updateMapWithAPI_def)

lemma invokes_updateMapWithAPI:
  "invokes i name (updateMapWithAPI U h m api p n (Some v)) =
     (m = i \<and> api = name \<and> \<not> isShallowEqual U h p n \<and> (api = ''setCenter'' \<longrightarrow> truthy v))"
  by (auto simp: updateMapWithAPI_def)

text \<open>The thirteen calls of \<open>componentDidUpdate\<close> are the rows of \<open>mapDiffs\<close>, in order.\<close>

lemma componentDidUpdate_calls:
  assumes "this_map w \<noteq> Undefined"
    and "parseMapOptions (windowAMap w) (hp w) (this_props w) = (nxt, h)"
  shows "fst (componentDidUpdate U w) =
     concat (map (\<lambda>(api, ck, vk).
            updateMapWithAPI U h (this_map w) api (get (mapOptions w) ck) (get nxt ck)
              (Some (get nxt vk))) mapDiffs)"
  using assms
  by (simp add: componentDidUpdate_def mapDiffs_def updateMapWithAPI_None Let_def)

lemma invokes_concat_absent:
  "api \<notin> fst ` set tbl \<Longrightarrow>
   \<not> invokes m api (concat (map (\<lambda>(api, ck, vk).
            updateMapWithAPI U h m api (prev ck) (nxt ck) (Some (nxt vk))) tbl))"
  by (induction tbl) (auto simp: invokes_updateMapWithAPI)

lemma invokes_concat_table:
  assumes "distinct (map fst tbl)" and "(api, ck, vk) \<in> set tbl"
  shows "invokes m api (concat (map (\<lambda>(api, ck, vk).
            updateMapWithAPI U h m api (prev ck) (nxt ck) (Some (nxt vk))) tbl)) =
         (\<not> isShallowEqual U h (prev ck) (nxt ck) \<and> (api = ''setCenter'' \<longrightarrow> truthy (nxt vk)))"
  using assms
proof (induction tbl)
  case Nil
  then show ?case by simp
next
  case (Cons e tbl)
  obtain a c v where e: "e = (a, c, v)" by (cases e)
  show ?case
  proof (cases "(api, ck, vk) = e")
    case True
    then have "fst e = api" by auto
    then have "api \<notin> fst ` set tbl" using Cons.prems(1) by simp
    then have "\<not> invokes m api (concat (map (\<lambda>(api, ck, vk).
            updateMapWithAPI U h m api (prev ck) (nxt ck) (Some (nxt vk))) tbl))"
      by (rule invokes_concat_absent)
    moreover from True e have "a = api" "c = ck" "v = vk" by simp_all
    ultimately show ?thesis using e by (simp add: invokes_updateMapWithAPI)
  next
    case False
    then have mem: "(api, ck, vk) \<in> set tbl" using Cons.prems(2) by simp
    then have "api \<in> fst ` set tbl" by force
    then have "a \<noteq> api" using Cons.prems(1) e by auto
    with Cons.IH mem Cons.prems(1) e show ?thesis by (simp add: invokes_updateMapWithAPI)
  qed
qed

lemma distinct_mapDiffs: "distinct (map fst mapDiffs)"
  by (simp add: mapDiffs_def)

lemma componentDidUpdate_invokes:
  assumes "this_map w \<noteq> Undefined"
    and "parseMapOptions (windowAMap w) (hp w) (this_props w) = (nxt, h)"
    and "(api, ck, vk) \<in> set mapDiffs"
  shows "invokes (this_map w) api (fst (componentDidUpdate U w)) =
     (\<not> isShallowEqual U h (get (mapOptions w) ck) (get nxt ck) \<and>
      (api = ''setCenter'' \<longrightarrow> truthy (get nxt vk)))"
  by (simp only: componentDidUpdate_calls [OF assms(1,2)]
        invokes_concat_table [OF distinct_mapDiffs assms(3)])

section \<open>The example run of the map\<close>

lemma ex_parse_unloaded: "parseMapOptions False ex_heap ex_props = (ex_options, ex_heap)"
  by (simp add: parseMapOptions_def ex_props_def ex_options_def omit_def mapLoaderKeys_def
      mapEventKeys_def get_def)

lemma ex_init_eq:
  "ex_init = \<lparr>hp = ex_heap, windowAMap = False,
      scripts = (\<lambda>s. NotRequested), lifecycle = Constructed, progress = NotStarted,
      this_props = ex_props, state_map = Undefined, this_map = Undefined,
      mapOptions = ex_options, AMapEventListeners = None, eventCallbacks = None,
      mapContainer = Undefined\<rparr>"
  by (simp add: ex_init_def AMap_constructor_def ex_parse_unloaded)

lemma scripts_all_loaded:
  "(\<lambda>s. NotRequested)(MapsJs := Loaded, UiJs := Loaded, LocaJs := Loaded) = (\<lambda>s. Loaded)"
proof
  fix s :: script
  show "((\<lambda>s. NotRequested)(MapsJs := Loaded, UiJs := Loaded, LocaJs := Loaded)) s = Loaded"
    by (cases s) simp_all
qed

lemma AMap_bindEvents_eq:
  "AMap_bindEvents w =
     (fst (bindInstanceEvent (this_map w)
             (map (\<lambda>k. (k, createEventCallback k (this_map w))) mapEventKeys) []),
      w\<lparr>AMapEventListeners :=
           Some (snd (bindInstanceEvent (this_map w)
                   (map (\<lambda>k. (k, createEventCallback k (this_map w))) mapEventKeys) [])),
         eventCallbacks := Some (map (\<lambda>k. (k, createEventCallback k (this_map w))) mapEventKeys)\<rparr>)"
  by (simp add: AMap_bindEvents_def AMap_parseEvents_def split_beta Let_def)

lemma ex_loaded_sel:
  "this_map ex_loaded = Ref 4" "windowAMap ex_loaded = True" "this_props ex_loaded = ex_props"
  "hp ex_loaded = ex_heap @ [Inst AMap_Map [Undefined]]" "mapOptions ex_loaded = ex_options"
  "lifecycle ex_loaded = Mounted" "state_map ex_loaded = Ref 4"
  by (simp_all add: ex_loaded_def)

lemma ex_first_sel:
  "this_map ex_first = Ref 4" "windowAMap ex_first = True" "this_props ex_first = ex_props"
  "hp ex_first = ex_heap @ [Inst AMap_Map [Undefined], Inst AMap_Bounds [Ref 2, Ref 3]]"
  "mapOptions ex_first = ex_options1" "lifecycle ex_first = Mounted"
  by (simp_all add: ex_first_def ex_loaded_def)

lemma ex_live_sel:
  "this_map ex_live = Ref 4" "windowAMap ex_live = True" "this_props ex_live = ex_props2"
  "hp ex_live = ex_heap @ [Inst AMap_Map [Undefined], Inst AMap_Bounds [Ref 2, Ref 3]]"
  "mapOptions ex_live = ex_options1"
  by (simp_all add: ex_live_def ex_first_def ex_loaded_def)

lemma ex_loaded_parse:
  "parseMapOptions (windowAMap ex_loaded) (hp ex_loaded) (this_props ex_loaded) =
     (ex_options1, hp ex_first)"
  by (simp add: ex_loaded_sel ex_first_sel)
     (simp add: parseMapOptions_def ex_props_def ex_options1_def omit_def mapLoaderKeys_def
        mapEventKeys_def get_def instanceOf_def deref_def ex_heap_def alloc_def)

lemma ex_first_parse:
  "parseMapOptions (windowAMap ex_first) (hp ex_first) (this_props ex_first) =
     ([(''zoom'', Num 3), (''center'', Ref 0), (''bounds'', Ref 6), (''boundsProp'', Ref 1)],
      ex_live_heap)"
  by (simp add: ex_first_sel)
     (simp add: parseMapOptions_def ex_props_def omit_def mapLoaderKeys_def
        mapEventKeys_def get_def instanceOf_def deref_def ex_heap_def alloc_def ex_live_heap_def)

lemma ex_live_parse:
  "parseMapOptions (windowAMap ex_live) (hp ex_live) (this_props ex_live) =
     (ex_options2, ex_live_heap)"
  by (simp add: ex_live_sel)
     (simp add: parseMapOptions_def ex_props2_def ex_options2_def omit_def mapLoaderKeys_def
        mapEventKeys_def get_def instanceOf_def deref_def ex_heap_def alloc_def ex_live_heap_def)

lemma updateMapWithAPI_equal:
  "isShallowEqual U h p n \<Longrightarrow> updateMapWithAPI U h m api p n a = []"
  by (simp add: updateMapWithAPI_def)

lemma componentDidUpdate_all_equal:
  assumes "this_map w \<noteq> Undefined"
    and "parseMapOptions (windowAMap w) (hp w) (this_props w) = (nxt, h)"
    and "\<forall>(api, ck, vk) \<in> set mapDiffs. isShallowEqual U h (get (mapOptions w) ck) (get nxt ck)"
  shows "fst (componentDidUpdate U w) = []"
  using assms(3)
  by (simp add: componentDidUpdate_calls [OF assms(1,2)] updateMapWithAPI_equal split_beta)

section \<open>Diffing in \<open>shouldComponentUpdate\<close>\<close>

lemma invokes_updateMarkerWithAPI:
  "invokes i name (updateMarkerWithAPI U h m api p n v) =
     (m = i \<and> api = name \<and> \<not> isShallowEqual U h p n)"
  by (auto simp: updateMarkerWithAPI_def)

lemma invokes_toggleVisible:
  "invokes i name (toggleVisible U h m p n) =
     (m = i \<and> \<not> isShallowEqual U h p n \<and>
      (name = ''show'' \<and> n = Bool True \<or> name = ''hide'' \<and> n = Bool False))"
  by (auto simp: toggleVisible_def)

lemma shouldComponentUpdate_calls:
  assumes "parseMarkerOptions (mhp st) np = (nmo, h1)"
    and "cloneDeep U h1 nmo NEED_DEEP_COPY_FIELDS = Inr (new, h)"
  shows "shouldComponentUpdate U st np =
     Inr (toggleVisible U h (marker st) (get (markerOptions st) ''visible'') (get nmo ''visible'')
          @ concat (map (\<lambda>(api, k).
              updateMarkerWithAPI U h (marker st) api (get (markerOptions st) k) (get nmo k)
                (get new k)) markerDiffs),
          st\<lparr>mhp := h, markerOptions := nmo\<rparr>, False)"
  using assms
  by (simp add: shouldComponentUpdate_def markerDiffs_def Let_def)

lemma invokes_marker_absent:
  "api \<notin> fst ` set tbl \<Longrightarrow>
   \<not> invokes m api (concat (map (\<lambda>(api, k).
            updateMarkerWithAPI U h m api (prev k) (nxt k) (new k)) tbl))"
  by (induction tbl) (auto simp: invokes_updateMarkerWithAPI)

lemma invokes_marker_table:
  assumes "distinct (map fst tbl)" and "(api, k) \<in> set tbl"
  shows "invokes m api (concat (map (\<lambda>(api, k).
            updateMarkerWithAPI U h m api (prev k) (nxt k) (new k)) tbl)) =
         (\<not> isShallowEqual U h (prev k) (nxt k))"
  using assms
proof (induction tbl)
  case Nil
  then show ?case by simp
next
  case (Cons e tbl)
  obtain a c where e: "e = (a, c)" by (cases e)
  show ?case
  proof (cases "(api, k) = e")
    case True
    then have "fst e = api" by auto
    then have "api \<notin> fst ` set tbl" using Cons.prems(1) by simp
    then have "\<not> invokes m api (concat (map (\<lambda>(api, k).
            updateMarkerWithAPI U h m api (prev k) (nxt k) (new k)) tbl))"
      by (rule invokes_marker_absent)
    moreover from True e have "a = api" "c = k" by simp_all
    ultimately show ?thesis using e by (simp add: invokes_updateMarkerWithAPI)
  next
    case False
    then have mem: "(api, k) \<in> set tbl" using Cons.prems(2) by simp
    then have "api \<in> fst ` set tbl" by force
    then have "a \<noteq> api" using Cons.prems(1) e by auto
    with Cons.IH mem Cons.prems(1) e show ?thesis by (simp add: invokes_updateMarkerWithAPI)
  qed
qed

lemma distinct_markerDiffs: "distinct (map fst markerDiffs)"
  by (simp add: markerDiffs_def)

lemma setter_not_toggle: "(api, k) \<in> set markerDiffs \<Longrightarrow> api \<noteq> ''show'' \<and> api \<noteq> ''hide''"
  by (auto simp: markerDiffs_def)

lemma shouldComponentUpdate_invokes:
  assumes "parseMarkerOptions (mhp st) np = (nmo, h1)"
    and "cloneDeep U h1 nmo NEED_DEEP_COPY_FIELDS = Inr (new, h)"
    and "shouldComponentUpdate U st np = Inr (cs, st', r)"
    and "(api, k) \<in> set markerDiffs"
  shows "invokes (marker st) api cs =
     (\<not> isShallowEqual U h (get (markerOptions st) k) (get nmo k))"
proof -
  have "cs = toggleVisible U h (marker st) (get (markerOptions st) ''visible'') (get nmo ''visible'')
          @ concat (map (\<lambda>(api, k).
              updateMarkerWithAPI U h (marker st) api (get (markerOptions st) k) (get nmo k)
                (get new k)) markerDiffs)"
    using assms(3) by (simp add: shouldComponentUpdate_calls [OF assms(1,2)])
  then show ?thesis
    using setter_not_toggle [OF assms(4)]
    by (simp add: invokes_toggleVisible invokes_marker_table [OF distinct_markerDiffs assms(4)])
qed

lemma shouldComponentUpdate_all_equal:
  assumes "parseMarkerOptions (mhp st) np = (nmo, h1)"
    and "cloneDeep U h1 nmo NEED_DEEP_COPY_FIELDS = Inr (new, h)"
    and "shouldComponentUpdate U st np = Inr (cs, st', r)"
    and "isShallowEqual U h (get (markerOptions st) ''visible'') (get nmo ''visible'')"
    and "\<forall>(api, k) \<in> set markerDiffs. isShallowEqual U h (get (markerOptions st) k) (get nmo k)"
  shows "cs = []"
proof -
  have "concat (map (\<lambda>(api, k).
              updateMarkerWithAPI U h (marker st) api (get (markerOptions st) k) (get nmo k)
                (get new k)) markerDiffs) = []"
    using assms(5) by (auto simp: updateMarkerWithAPI_def)
  moreover have "toggleVisible U h (marker st) (get (markerOptions st) ''visible'')
      (get nmo ''visible'') = []"
    using assms(4) by (simp add: toggleVisible_def)
  moreover have "cs = toggleVisible U h (marker st) (get (markerOptions st) ''visible'')
            (get nmo ''visible'')
          @ concat (map (\<lambda>(api, k).
              updateMarkerWithAPI U h (marker st) api (get (markerOptions st) k) (get nmo k)
                (get new k)) markerDiffs)"
    using assms(3) by (simp add: shouldComponentUpdate_calls [OF assms(1,2)])
  ultimately show ?thesis by (simp only: append_Nil)
qed


section \<open>The example marker\<close>

lemma ex_marker_parse:
  "parseMarkerOptions ex_marker_heap ex_marker_props = (ex_marker_options, ex_marker_heap)"
  by (simp add: parseMarkerOptions_def ex_marker_props_def ex_marker_heap_def ex_marker_options_def
      omit_def markerEventKeys_def get_def isNullVoid_def toPixel_def instanceOf_def deref_def
      markerIcon_def markerLabel_def)

lemma ex_marker_clone:
  "cloneDeep utils_spec ex_marker_heap ex_marker_options NEED_DEEP_COPY_FIELDS =
     Inr (ex_marker_handed, ex_marker_heap @ [Arr [Num 120, Num 30]])"
  by (simp add: utils_spec_def cloneDeep_spec_def NEED_DEEP_COPY_FIELDS_def ex_marker_options_def
      ex_marker_handed_def ex_marker_heap_def deref_def alloc_def numeral_3_eq_3)

lemma ex_marker_init:
  "initMarker utils_spec ex_marker_heap ex_marker_options ex_marker_props (Ref 2) =
     Inr ([NewMarker ex_marker_handed (Ref 4), Invoke (Ref 4) ''setMap'' [Ref 2]], Ref 4,
          mhp ex_marker)"
proof -
  have vis: "get ex_marker_props ''visible'' = Bool True"
    by (simp add: ex_marker_props_def get_def)
  have len: "length (ex_marker_heap @ [Arr [Num 120, Num 30]]) = 4"
    by (simp add: ex_marker_heap_def)
  show ?thesis
    by (simp add: initMarker_def ex_marker_clone vis alloc_def Let_def ex_marker_def)
       (simp add: ex_marker_heap_def)
qed

lemma ex_marker_constructed:
  "Marker_constructor utils_spec ex_marker_heap ex_marker_props (Ref 2) =
     Inr ([NewMarker ex_marker_handed (Ref 4), Invoke (Ref 4) ''setMap'' [Ref 2]]
          @ fst (Marker_bindEvents (Ref 4)), ex_marker)"
proof -
  have oc: "get ex_marker_props ''onComplete'' = Undefined"
    by (simp add: ex_marker_props_def get_def)
  show ?thesis
    by (simp add: Marker_constructor_def breakIfNotChildOfAMap_def ex_marker_parse ex_marker_init
        oc isFunction_def split_beta Let_def ex_marker_def)
qed


lemma ex_marker_sel:
  "mhp ex_marker = ex_marker_heap @ [Arr [Num 120, Num 30], Inst AMap_Marker []]"
  "markerOptions ex_marker = ex_marker_options" "marker ex_marker = Ref 4"
  by (simp_all add: ex_marker_def)

lemma ex_marker_parse2:
  "parseMarkerOptions (mhp ex_marker) ex_marker_props2 = (ex_marker_options2, mhp ex_marker)"
  by (simp add: ex_marker_sel)
     (simp add: parseMarkerOptions_def ex_marker_props2_def ex_marker_heap_def
      ex_marker_options2_def omit_def markerEventKeys_def get_def isNullVoid_def toPixel_def
      instanceOf_def deref_def markerIcon_def markerLabel_def)

lemma ex_marker_clone2:
  "cloneDeep utils_spec (mhp ex_marker) ex_marker_options2 NEED_DEEP_COPY_FIELDS =
     Inr (ex_marker_handed2, mhp ex_marker @ [Arr [Num 120, Num 30]])"
  by (simp add: ex_marker_sel)
     (simp add: utils_spec_def cloneDeep_spec_def NEED_DEEP_COPY_FIELDS_def
      ex_marker_options2_def ex_marker_handed2_def ex_marker_heap_def deref_def alloc_def
      eval_nat_numeral)

lemma ex_marker_update:
  "shouldComponentUpdate utils_spec ex_marker ex_marker_props2 =
     Inr ([Invoke (Ref 4) ''setTitle'' [Str ''b'']],
          ex_marker\<lparr>mhp := mhp ex_marker @ [Arr [Num 120, Num 30]],
                    markerOptions := ex_marker_options2\<rparr>, False)"
proof -
  have "isShallowEqual utils_spec h a a" for h a
    by (simp add: utils_spec_def isShallowEqual_spec_def)
  moreover have "\<not> isShallowEqual utils_spec h (Str ''a'') (Str ''b'')" for h
    by (simp add: utils_spec_def isShallowEqual_spec_def deref_def)
  ultimately show ?thesis
    by (simp add: shouldComponentUpdate_calls [OF ex_marker_parse2 ex_marker_clone2]
        markerDiffs_def toggleVisible_def updateMarkerWithAPI_def ex_marker_sel
        ex_marker_options_def ex_marker_options2_def ex_marker_handed2_def get_def)
qed


lemma invokes_show_hide:
  assumes "parseMarkerOptions (mhp st) np = (nmo, h1)"
    and "cloneDeep U h1 nmo NEED_DEEP_COPY_FIELDS = Inr (new, h)"
    and "shouldComponentUpdate U st np = Inr (cs, st', r)"
  shows "invokes (marker st) ''show'' cs =
           (\<not> isShallowEqual U h (get (markerOptions st) ''visible'') (get nmo ''visible'')
            \<and> get nmo ''visible'' = Bool True)"
    and "invokes (marker st) ''hide'' cs =
           (\<not> isShallowEqual U h (get (markerOptions st) ''visible'') (get nmo ''visible'')
            \<and> get nmo ''visible'' = Bool False)"
proof -
  have cs: "cs = toggleVisible U h (marker st) (get (markerOptions st) ''visible'') (get nmo ''visible'')
          @ concat (map (\<lambda>(api, k).
              updateMarkerWithAPI U h (marker st) api (get (markerOptions st) k) (get nmo k)
                (get new k)) markerDiffs)"
    using assms(3) by (simp add: shouldComponentUpdate_calls [OF assms(1,2)])
  have "''show'' \<notin> fst ` set markerDiffs" "''hide'' \<notin> fst ` set markerDiffs"
    by (simp_all add: markerDiffs_def)
  then show "invokes (marker st) ''show'' cs =
           (\<not> isShallowEqual U h (get (markerOptions st) ''visible'') (get nmo ''visible'')
            \<and> get nmo ''visible'' = Bool True)"
    and "invokes (marker st) ''hide'' cs =
           (\<not> isShallowEqual U h (get (markerOptions st) ''visible'') (get nmo ''visible'')
            \<and> get nmo ''visible'' = Bool False)"
    by (simp_all add: cs invokes_toggleVisible invokes_marker_absent)
qed

text \<open>
  C1, as amended. Once the map exists, each setter of \<open>componentDidUpdate\<close> is invoked
  exactly when the compared values are not shallow-equal, except \<open>setCenter\<close>, which also
  needs a truthy next centre; each of the sixteen setters of \<open>shouldComponentUpdate\<close> is
  invoked exactly when the compared values are not shallow-equal; \<open>show\<close> and \<open>hide\<close> are
  invoked when \<open>visible\<close> is not shallow-equal to its predecessor and is exactly true,
  respectively false; and an update in which every compared value is shallow-equal to its
  predecessor makes no call at all.
\<close>

theorem diffed_setters:
  "(this_map w \<noteq> Undefined \<and>
    parseMapOptions (windowAMap w) (hp w) (this_props w) = (nxt, h) \<longrightarrow>
      (\<forall>(api, ck, vk) \<in> set mapDiffs.
          invokes (this_map w) api (fst (componentDidUpdate U w)) =
            (\<not> isShallowEqual U h (get (mapOptions w) ck) (get nxt ck) \<and>
             (api = ''setCenter'' \<longrightarrow> truthy (get nxt vk))))
      \<and> ((\<forall>(api, ck, vk) \<in> set mapDiffs.
              isShallowEqual U h (get (mapOptions w) ck) (get nxt ck)) \<longrightarrow>
           fst (componentDidUpdate U w) = []))
   \<and> (parseMarkerOptions (mhp st) np = (nmo, h1) \<and>
      cloneDeep U h1 nmo NEED_DEEP_COPY_FIELDS = Inr (new, h2) \<and>
      shouldComponentUpdate U st np = Inr (cs, st', r) \<longrightarrow>
        (\<forall>(api, k) \<in> set markerDiffs.
            invokes (marker st) api cs =
              (\<not> isShallowEqual U h2 (get (markerOptions st) k) (get nmo k)))
        \<and> invokes (marker st) ''show'' cs =
            (\<not> isShallowEqual U h2 (get (markerOptions st) ''visible'') (get nmo ''visible'')
             \<and> get nmo ''visible'' = Bool True)
        \<and> invokes (marker st) ''hide'' cs =
            (\<not> isShallowEqual U h2 (get (markerOptions st) ''visible'') (get nmo ''visible'')
             \<and> get nmo ''visible'' = Bool False)
        \<and> (isShallowEqual U h2 (get (markerOptions st) ''visible'') (get nmo ''visible'') \<and>
            (\<forall>(api, k) \<in> set markerDiffs.
                isShallowEqual U h2 (get (markerOptions st) k) (get nmo k)) \<longrightarrow>
            cs = []))"
proof (intro conjI impI)
  assume a: "this_map w \<noteq> Undefined \<and>
    parseMapOptions (windowAMap w) (hp w) (this_props w) = (nxt, h)"
  show "\<forall>(api, ck, vk) \<in> set mapDiffs.
          invokes (this_map w) api (fst (componentDidUpdate U w)) =
            (\<not> isShallowEqual U h (get (mapOptions w) ck) (get nxt ck) \<and>
             (api = ''setCenter'' \<longrightarrow> truthy (get nxt vk)))"
    using a by (auto simp: componentDidUpdate_invokes)
  assume "\<forall>(api, ck, vk) \<in> set mapDiffs.
              isShallowEqual U h (get (mapOptions w) ck) (get nxt ck)"
  with a show "fst (componentDidUpdate U w) = []"
    by (simp add: componentDidUpdate_all_equal)
next
  assume b: "parseMarkerOptions (mhp st) np = (nmo, h1) \<and>
      cloneDeep U h1 nmo NEED_DEEP_COPY_FIELDS = Inr (new, h2) \<and>
      shouldComponentUpdate U st np = Inr (cs, st', r)"
  then have b1: "parseMarkerOptions (mhp st) np = (nmo, h1)"
    and b2: "cloneDeep U h1 nmo NEED_DEEP_COPY_FIELDS = Inr (new, h2)"
    and b3: "shouldComponentUpdate U st np = Inr (cs, st', r)"
    by simp_all
  show "\<forall>(api, k) \<in> set markerDiffs.
            invokes (marker st) api cs =
              (\<not> isShallowEqual U h2 (get (markerOptions st) k) (get nmo k))"
    using shouldComponentUpdate_invokes [OF b1 b2 b3] by auto
  show "invokes (marker st) ''show'' cs =
            (\<not> isShallowEqual U h2 (get (markerOptions st) ''visible'') (get nmo ''visible'')
             \<and> get nmo ''visible'' = Bool True)"
    by (rule invokes_show_hide(1) [OF b1 b2 b3])
  show "invokes (marker st) ''hide'' cs =
            (\<not> isShallowEqual U h2 (get (markerOptions st) ''visible'') (get nmo ''visible'')
             \<and> get nmo ''visible'' = Bool False)"
    by (rule invokes_show_hide(2) [OF b1 b2 b3])
  assume "isShallowEqual U h2 (get (markerOptions st) ''visible'') (get nmo ''visible'') \<and>
            (\<forall>(api, k) \<in> set markerDiffs.
                isShallowEqual U h2 (get (markerOptions st) k) (get nmo k))"
  then show "cs = []"
    using shouldComponentUpdate_all_equal [OF b1 b2 b3] by blast
qed


lemma spec_equal_refl: "isShallowEqual utils_spec h a a"
  by (simp add: utils_spec_def isShallowEqual_spec_def)

lemma spec_equal_prim:
  "deref h a = None \<Longrightarrow> isShallowEqual utils_spec h a b = (a = b)"
  "deref h b = None \<Longrightarrow> isShallowEqual utils_spec h a b = (a = b)"
  by (auto simp: utils_spec_def isShallowEqual_spec_def split: option.splits hobj.splits)

lemma deref_prim [simp]:
  "deref h Undefined = None" "deref h Null = None" "deref h (Bool b) = None"
  "deref h (Num r) = None" "deref h NaN = None" "deref h (Str s) = None"
  "deref h (Fn n) = None" "deref h (EventCallback k i) = None"
  by (simp_all add: deref_def)

lemma ex_first_update:
  "componentDidUpdate utils_spec ex_loaded = ([Invoke (Ref 4) ''setBounds'' [Ref 5]], ex_first)"
  by (simp add: componentDidUpdate_def ex_loaded_parse ex_loaded_sel(1,5) updateMapWithAPI_def
      ex_options_def ex_options1_def get_def spec_equal_refl spec_equal_prim)
     (simp add: ex_first_def ex_options1_def)

lemma ex_second_update:
  "componentDidUpdate utils_spec ex_first =
     ([], ex_first\<lparr>hp := ex_live_heap,
            mapOptions := [(''zoom'', Num 3), (''center'', Ref 0), (''bounds'', Ref 6),
                           (''boundsProp'', Ref 1)]\<rparr>)"
  by (simp add: componentDidUpdate_def ex_first_parse ex_first_sel(1,5) updateMapWithAPI_def
      ex_options1_def get_def spec_equal_refl spec_equal_prim)

lemma ex_live_update:
  "componentDidUpdate utils_spec ex_live =
     ([Invoke (Ref 4) ''setZoom'' [Num 0]], ex_live\<lparr>hp := ex_live_heap, mapOptions := ex_options2\<rparr>)"
  by (simp add: componentDidUpdate_def ex_live_parse ex_live_sel(1,5) updateMapWithAPI_def
      ex_options1_def ex_options2_def get_def spec_equal_refl spec_equal_prim)

text \<open>
  Mounting, then the three scripts load: the map is cell 4, and the update that follows
  \<open>setState\<close> calls \<open>setBounds\<close> with a new Bounds instance, cell 5.
\<close>

lemma ex_run:
  "run utils_spec [DidMount, Onload MapsJs, Onload UiJs, Onload LocaJs] ex_init =
     Some ([AppendScript MapsJs, AppendScript UiJs, AppendScript LocaJs, InitAMapUI,
            NewMap Undefined ex_options (Ref 4)]
           @ fst (bindInstanceEvent (Ref 4)
                    (map (\<lambda>k. (k, createEventCallback k (Ref 4))) mapEventKeys) [])
           @ [Invoke (Ref 4) ''setBounds'' [Ref 5]],
           ex_first)"
proof -
  have len: "length ex_heap = 4" by (simp add: ex_heap_def)
  note upd = ex_first_update [unfolded ex_loaded_def]
  show ?thesis
    by (simp add: ex_init_eq componentDidMount_def initAMap_def loadScript_def onload_def
      initAMap_afterRequireAMap_def initAMap_afterAMapUI_def initAMap_construct_def
      initAMap_newMap_def setState_map_def AMap_bindEvents_eq alloc_def Let_def len
      scripts_all_loaded upd)
qed

text \<open>
  The claim as stated fails at the centre: in the example the previous centre is the array
  in cell 0 and the next one is undefined, they are not shallow-equal, and the update calls
  \<open>setZoom(0)\<close> only.
\<close>

theorem diffed_setters_counterexample:
  "componentDidUpdate utils_spec ex_live =
     ([Invoke (Ref 4) ''setZoom'' [Num 0]], ex_live\<lparr>hp := ex_live_heap, mapOptions := ex_options2\<rparr>)
   \<and> parseMapOptions (windowAMap ex_live) (hp ex_live) (this_props ex_live) =
       (ex_options2, ex_live_heap)
   \<and> get (mapOptions ex_live) ''center'' = Ref 0
   \<and> get ex_options2 ''center'' = Undefined
   \<and> \<not> isShallowEqual utils_spec ex_live_heap (Ref 0) Undefined"
  by (simp add: ex_live_update ex_live_parse spec_equal_prim)
     (simp add: ex_live_sel ex_options1_def ex_options2_def get_def)


lemma ex_marker_parse3:
  "parseMarkerOptions (mhp ex_marker) ex_marker_props = (ex_marker_options, mhp ex_marker)"
  by (simp add: ex_marker_sel)
     (simp add: parseMarkerOptions_def ex_marker_props_def ex_marker_heap_def
      ex_marker_options_def omit_def markerEventKeys_def get_def isNullVoid_def toPixel_def
      instanceOf_def deref_def markerIcon_def markerLabel_def)

lemma ex_marker_clone3:
  "cloneDeep utils_spec (mhp ex_marker) ex_marker_options NEED_DEEP_COPY_FIELDS =
     Inr ([(''position'', Ref 5), (''title'', Str ''a''), (''label'', Null),
           (''offset'', Ref 1), (''visible'', Bool True), (''icon'', Null)],
          mhp ex_marker @ [Arr [Num 120, Num 30]])"
  by (simp add: ex_marker_sel)
     (simp add: utils_spec_def cloneDeep_spec_def NEED_DEEP_COPY_FIELDS_def
      ex_marker_options_def ex_marker_heap_def deref_def alloc_def eval_nat_numeral)

theorem diffed_setters_witness:
  "invokes (this_map ex_live) ''setZoom'' (fst (componentDidUpdate utils_spec ex_live))
   \<and> fst (componentDidUpdate utils_spec ex_first) = []
   \<and> (case shouldComponentUpdate utils_spec ex_marker ex_marker_props2 of
         Inr (cs, st', r) \<Rightarrow>
           invokes (marker ex_marker) ''setTitle'' cs \<and>
           \<not> invokes (marker ex_marker) ''setPosition'' cs \<and>
           \<not> invokes (marker ex_marker) ''show'' cs
       | Inl e \<Rightarrow> False)
   \<and> (case shouldComponentUpdate utils_spec ex_marker ex_marker_props of
         Inr (cs, st', r) \<Rightarrow> cs = []
       | Inl e \<Rightarrow> False)"
proof -
  let ?same = "[(''zoom'', Num 3), (''center'', Ref 0), (''bounds'', Ref 6),
              (''boundsProp'', Ref 1)]"
  let ?h2 = "mhp ex_marker @ [Arr [Num 120, Num 30]]"
  let ?cs = "[Invoke (Ref 4) ''setTitle'' [Str ''b'']]"
  have live: "this_map ex_live \<noteq> Undefined" "this_map ex_first \<noteq> Undefined"
    by (simp_all add: ex_live_sel ex_first_sel)
  have rows: "(''setZoom'', ''zoom'', ''zoom'') \<in> set mapDiffs"
    "(''setTitle'', ''title'') \<in> set markerDiffs"
    "(''setPosition'', ''position'') \<in> set markerDiffs"
    by (simp_all add: mapDiffs_def markerDiffs_def)
  have zoom: "\<not> isShallowEqual utils_spec ex_live_heap (get (mapOptions ex_live) ''zoom'')
      (get ex_options2 ''zoom'')"
    by (simp add: ex_live_sel ex_options1_def ex_options2_def get_def spec_equal_prim)
  note map1 = diffed_setters [where U = utils_spec and w = ex_live and nxt = ex_options2
        and h = ex_live_heap, THEN conjunct1, THEN mp, OF conjI [OF live(1) ex_live_parse]]
  have c1: "invokes (this_map ex_live) ''setZoom'' (fst (componentDidUpdate utils_spec ex_live))"
    using map1 [THEN conjunct1, THEN bspec, OF rows(1)] zoom by simp
  have same: "\<forall>(api, ck, vk) \<in> set mapDiffs.
      isShallowEqual utils_spec ex_live_heap (get (mapOptions ex_first) ck) (get ?same ck)"
    by (simp add: mapDiffs_def ex_first_sel ex_options1_def get_def spec_equal_refl)
  note map2 = diffed_setters [where U = utils_spec and w = ex_first and h = ex_live_heap
        and nxt = ?same, THEN conjunct1, THEN mp, OF conjI [OF live(2) ex_first_parse]]
  have c2: "fst (componentDidUpdate utils_spec ex_first) = []"
    by (rule map2 [THEN conjunct2, THEN mp, OF same])
  have title: "\<not> isShallowEqual utils_spec ?h2
      (get (markerOptions ex_marker) ''title'') (get ex_marker_options2 ''title'')"
    and position: "isShallowEqual utils_spec ?h2
      (get (markerOptions ex_marker) ''position'') (get ex_marker_options2 ''position'')"
    and visible: "isShallowEqual utils_spec ?h2
      (get (markerOptions ex_marker) ''visible'') (get ex_marker_options2 ''visible'')"
    by (simp_all add: ex_marker_sel ex_marker_options_def ex_marker_options2_def get_def
        spec_equal_prim spec_equal_refl)
  note mk1 = diffed_setters [where U = utils_spec and st = ex_marker and np = ex_marker_props2
        and nmo = ex_marker_options2 and ?h1.0 = "mhp ex_marker" and new = ex_marker_handed2
        and ?h2.0 = ?h2 and cs = ?cs, THEN conjunct2, THEN mp,
        OF conjI [OF ex_marker_parse2 conjI [OF ex_marker_clone2 ex_marker_update]]]
  have c3a: "invokes (marker ex_marker) ''setTitle'' ?cs"
    using mk1 [THEN conjunct1, THEN bspec, OF rows(2)] title by simp
  have c3b: "\<not> invokes (marker ex_marker) ''setPosition'' ?cs"
    using mk1 [THEN conjunct1, THEN bspec, OF rows(3)] position by simp
  have c3c: "\<not> invokes (marker ex_marker) ''show'' ?cs"
    using mk1 [THEN conjunct2, THEN conjunct1] visible by simp
  obtain cs st' r where upd: "shouldComponentUpdate utils_spec ex_marker ex_marker_props =
      Inr (cs, st', r)"
    using shouldComponentUpdate_calls [OF ex_marker_parse3 ex_marker_clone3] by blast
  have same_marker: "isShallowEqual utils_spec ?h2
        (get (markerOptions ex_marker) ''visible'') (get ex_marker_options ''visible'') \<and>
      (\<forall>(api, k) \<in> set markerDiffs.
         isShallowEqual utils_spec ?h2 (get (markerOptions ex_marker) k) (get ex_marker_options k))"
    by (simp add: ex_marker_sel spec_equal_refl split_beta)
  note mk2 = diffed_setters [where U = utils_spec and st = ex_marker and np = ex_marker_props
        and nmo = ex_marker_options and ?h1.0 = "mhp ex_marker"
        and ?h2.0 = ?h2 and cs = cs, THEN conjunct2, THEN mp,
        OF conjI [OF ex_marker_parse3 conjI [OF ex_marker_clone3 upd]]]
  have c4: "cs = []"
    by (rule mk2 [THEN conjunct2, THEN conjunct2, THEN conjunct2, THEN mp, OF same_marker])
  show ?thesis
    using c1 c2 c3a c3b c3c c4 by (simp add: ex_marker_update upd)
qed

text \<open>
  C8. In \<open>updateMapWithAPI\<close> a falsy next value never reaches \<open>setCenter\<close>, whatever the
  comparison says; for every other name the comparison alone decides; and so, among the
  diffed options of the map, the centre is the only one whose change to an empty value is
  dropped by \<open>componentDidUpdate\<close>.
\<close>

theorem setCenter_guard:
  "(\<not> truthy (case a of None \<Rightarrow> n | Some v \<Rightarrow> v) \<longrightarrow>
      updateMapWithAPI U h m ''setCenter'' p n a = [])
   \<and> (api \<noteq> ''setCenter'' \<longrightarrow>
        updateMapWithAPI U h m api p n a =
          (if isShallowEqual U h p n then []
           else [Invoke m api [case a of None \<Rightarrow> n | Some v \<Rightarrow> v]]))
   \<and> (this_map w \<noteq> Undefined \<longrightarrow> (api, ck, vk) \<in> set mapDiffs \<longrightarrow>
        parseMapOptions (windowAMap w) (hp w) (this_props w) = (nxt, h') \<longrightarrow>
        \<not> isShallowEqual U h' (get (mapOptions w) ck) (get nxt ck) \<longrightarrow>
        \<not> truthy (get nxt vk) \<longrightarrow>
        invokes (this_map w) api (fst (componentDidUpdate U w)) = (api \<noteq> ''setCenter''))"
proof (intro conjI impI)
  assume "\<not> truthy (case a of None \<Rightarrow> n | Some v \<Rightarrow> v)"
  then show "updateMapWithAPI U h m ''setCenter'' p n a = []"
    by (simp add: updateMapWithAPI_def Let_def)
next
  assume "api \<noteq> ''setCenter''"
  then show "updateMapWithAPI U h m api p n a =
          (if isShallowEqual U h p n then []
           else [Invoke m api [case a of None \<Rightarrow> n | Some v \<Rightarrow> v]])"
    by (simp add: updateMapWithAPI_def Let_def)
next
  assume "this_map w \<noteq> Undefined" "(api, ck, vk) \<in> set mapDiffs"
    "parseMapOptions (windowAMap w) (hp w) (this_props w) = (nxt, h')"
    "\<not> isShallowEqual U h' (get (mapOptions w) ck) (get nxt ck)"
    "\<not> truthy (get nxt vk)"
  then show "invokes (this_map w) api (fst (componentDidUpdate U w)) = (api \<noteq> ''setCenter'')"
    by (simp add: componentDidUpdate_invokes)
qed

text \<open>
  The example: zoom goes from 3 to 0 and the centre from an array to undefined. Both
  next values are falsy and both differ from their predecessors; \<open>setZoom(0)\<close> is called,
  \<open>setCenter\<close> is not.
\<close>

theorem setCenter_guard_witness:
  "updateMapWithAPI utils_spec ex_live_heap (Ref 4) ''setCenter'' (Ref 0) Undefined None = []
   \<and> updateMapWithAPI utils_spec ex_live_heap (Ref 4) ''setZoom'' (Num 3) (Num 0) None =
       [Invoke (Ref 4) ''setZoom'' [Num 0]]
   \<and> invokes (this_map ex_live) ''setZoom'' (fst (componentDidUpdate utils_spec ex_live))
   \<and> \<not> invokes (this_map ex_live) ''setCenter'' (fst (componentDidUpdate utils_spec ex_live))"
proof -
  have live: "this_map ex_live \<noteq> Undefined" by (simp add: ex_live_sel)
  have zoom: "(''setZoom'', ''zoom'', ''zoom'') \<in> set mapDiffs"
    and center: "(''setCenter'', ''center'', ''center'') \<in> set mapDiffs"
    by (simp_all add: mapDiffs_def)
  have neq_zoom: "\<not> isShallowEqual utils_spec ex_live_heap (Num 3) (Num 0)"
    and neq_center: "\<not> isShallowEqual utils_spec ex_live_heap (Ref 0) Undefined"
    by (simp_all add: utils_spec_def isShallowEqual_spec_def deref_def ex_live_heap_def
        ex_heap_def)
  have vals: "get (mapOptions ex_live) ''zoom'' = Num 3" "get ex_options2 ''zoom'' = Num 0"
    "get (mapOptions ex_live) ''center'' = Ref 0" "get ex_options2 ''center'' = Undefined"
    by (simp_all add: ex_live_sel ex_options1_def ex_options2_def get_def)
  have c1: "updateMapWithAPI utils_spec ex_live_heap (Ref 4) ''setCenter'' (Ref 0) Undefined None = []"
    using setCenter_guard [where a = None and n = Undefined and U = utils_spec
        and h = ex_live_heap and m = "Ref 4" and p = "Ref 0", THEN conjunct1]
    by simp
  have c2: "updateMapWithAPI utils_spec ex_live_heap (Ref 4) ''setZoom'' (Num 3) (Num 0) None =
       [Invoke (Ref 4) ''setZoom'' [Num 0]]"
    using setCenter_guard [where a = None and n = "Num 0" and U = utils_spec
        and h = ex_live_heap and m = "Ref 4" and p = "Num 3" and api = "''setZoom''",
        THEN conjunct2, THEN conjunct1] neq_zoom
    by simp
  have c3: "invokes (this_map ex_live) ''setZoom'' (fst (componentDidUpdate utils_spec ex_live))"
    using setCenter_guard [where U = utils_spec and w = ex_live and api = "''setZoom''"
        and ck = "''zoom''" and vk = "''zoom''" and nxt = ex_options2 and h' = ex_live_heap,
        THEN conjunct2, THEN conjunct2] live zoom ex_live_parse neq_zoom vals
    by simp
  have c4: "\<not> invokes (this_map ex_live) ''setCenter'' (fst (componentDidUpdate utils_spec ex_live))"
    using setCenter_guard [where U = utils_spec and w = ex_live and api = "''setCenter''"
        and ck = "''center''" and vk = "''center''" and nxt = ex_options2 and h' = ex_live_heap,
        THEN conjunct2, THEN conjunct2] live center ex_live_parse neq_center vals
    by simp
  from c1 c2 c3 c4 show ?thesis by blast
qed

section \<open>Option parsing\<close>

lemma get_update: "get (AList.update k v ob) k' = (if k' = k then v else get ob k')"
  by (simp add: get_def update_conv')

lemma keys_update: "fst ` set (AList.update k v ob) = insert k (fst ` set ob)"
  by (induction ob) auto

lemma keys_omit: "fst ` set (omit ks ob) = fst ` set ob - set ks"
  by (auto simp: omit_def)

lemma parseMapOptions_loaded_array:
  assumes "deref h (get p ''bounds'') = Some (Arr xs)"
  shows "parseMapOptions True h p =
     (AList.update ''boundsProp'' (get p ''bounds'')
        (AList.update ''bounds'' (Ref (length h)) (omit (mapLoaderKeys @ mapEventKeys) p)),
      h @ [Inst AMap_Bounds xs])"
proof -
  have g: "get (omit (mapLoaderKeys @ mapEventKeys) p) ''bounds'' = get p ''bounds''"
    by (simp add: get_omit mapLoaderKeys_def mapEventKeys_def)
  show ?thesis
    using assms by (simp add: parseMapOptions_def g instanceOf_def alloc_def Let_def)
qed

lemma parseMapOptions_boundsProp:
  "get (fst (parseMapOptions d h p)) ''boundsProp'' = (if d then get p ''bounds'' else Undefined)"
proof -
  have g: "get (omit (mapLoaderKeys @ mapEventKeys) p) ''bounds'' = get p ''bounds''"
    by (simp add: get_omit mapLoaderKeys_def mapEventKeys_def)
  show ?thesis
    by (simp add: parseMapOptions_def g get_update Let_def split_beta)
qed

lemma setBounds_row: "(''setBounds'', ''boundsProp'', ''bounds'') \<in> set mapDiffs"
  by (simp add: mapDiffs_def)

lemma setBounds_invoked:
  assumes "this_map w \<noteq> Undefined"
    and "parseMapOptions (windowAMap w) (hp w) (this_props w) = (nxt, h')"
  shows "invokes (this_map w) ''setBounds'' (fst (componentDidUpdate U w)) =
     (\<not> isShallowEqual U h' (get (mapOptions w) ''boundsProp'') (get nxt ''boundsProp''))"
  using componentDidUpdate_invokes [OF assms setBounds_row, of U] by simp

text \<open>
  C5, as amended. With the library loaded and an array as the bounds prop,
  \<open>parseMapOptions\<close> puts a new Bounds instance (a new heap cell) into \<open>bounds\<close> and the
  prop itself into \<open>boundsProp\<close>. \<open>componentDidUpdate\<close> calls \<open>setBounds\<close> exactly when the
  memorised \<open>boundsProp\<close> of the previous and of the next parse are not shallow-equal. When
  the previous options were parsed with the library loaded, that is exactly when the bounds
  prop changed; when they were parsed before it was loaded, the memorised value is
  undefined, and \<open>setBounds\<close> is called exactly when the bounds prop is not shallow-equal to
  undefined.
\<close>

theorem bounds_memo:
  "(deref h (get p ''bounds'') = Some (Arr xs) \<longrightarrow>
      snd (parseMapOptions True h p) = h @ [Inst AMap_Bounds xs] \<and>
      get (fst (parseMapOptions True h p)) ''bounds'' = Ref (length h) \<and>
      get (fst (parseMapOptions True h p)) ''boundsProp'' = get p ''bounds'')
   \<and> (this_map w \<noteq> Undefined \<and>
       parseMapOptions (windowAMap w) (hp w) (this_props w) = (nxt, h') \<longrightarrow>
         invokes (this_map w) ''setBounds'' (fst (componentDidUpdate U w)) =
           (\<not> isShallowEqual U h' (get (mapOptions w) ''boundsProp'') (get nxt ''boundsProp'')))
   \<and> (this_map w \<noteq> Undefined \<and> windowAMap w \<and>
       mapOptions w = fst (parseMapOptions d h0 p0) \<and>
       parseMapOptions (windowAMap w) (hp w) (this_props w) = (nxt, h') \<longrightarrow>
         invokes (this_map w) ''setBounds'' (fst (componentDidUpdate U w)) =
           (\<not> isShallowEqual U h' (if d then get p0 ''bounds'' else Undefined)
                 (get (this_props w) ''bounds'')))"
proof (intro conjI impI)
  assume a: "deref h (get p ''bounds'') = Some (Arr xs)"
  show "snd (parseMapOptions True h p) = h @ [Inst AMap_Bounds xs]"
    by (simp add: parseMapOptions_loaded_array [OF a])
  show "get (fst (parseMapOptions True h p)) ''bounds'' = Ref (length h)"
    by (simp add: parseMapOptions_loaded_array [OF a] get_update)
  show "get (fst (parseMapOptions True h p)) ''boundsProp'' = get p ''bounds''"
    by (simp add: parseMapOptions_boundsProp)
next
  assume "this_map w \<noteq> Undefined \<and>
       parseMapOptions (windowAMap w) (hp w) (this_props w) = (nxt, h')"
  then show "invokes (this_map w) ''setBounds'' (fst (componentDidUpdate U w)) =
           (\<not> isShallowEqual U h' (get (mapOptions w) ''boundsProp'') (get nxt ''boundsProp''))"
    by (simp add: setBounds_invoked)
next
  assume b: "this_map w \<noteq> Undefined \<and> windowAMap w \<and>
       mapOptions w = fst (parseMapOptions d h0 p0) \<and>
       parseMapOptions (windowAMap w) (hp w) (this_props w) = (nxt, h')"
  then have b1: "this_map w \<noteq> Undefined" and b2: "windowAMap w"
    and b3: "mapOptions w = fst (parseMapOptions d h0 p0)"
    and b4: "parseMapOptions (windowAMap w) (hp w) (this_props w) = (nxt, h')"
    by blast+
  have "nxt = fst (parseMapOptions (windowAMap w) (hp w) (this_props w))"
    by (simp add: b4)
  then have "get nxt ''boundsProp'' = get (this_props w) ''bounds''"
    using b2 by (simp only: parseMapOptions_boundsProp) simp
  moreover have "get (mapOptions w) ''boundsProp'' = (if d then get p0 ''bounds'' else Undefined)"
    by (simp only: b3 parseMapOptions_boundsProp)
  ultimately show "invokes (this_map w) ''setBounds'' (fst (componentDidUpdate U w)) =
           (\<not> isShallowEqual U h' (if d then get p0 ''bounds'' else Undefined)
                 (get (this_props w) ''bounds''))"
    by (simp only: setBounds_invoked [OF b1 b4])
qed


lemma ex_loaded_props: "ex_loaded\<lparr>this_props := ex_props\<rparr> = ex_loaded"
  by (simp add: ex_loaded_def)

text \<open>
  The claim as stated fails on the first update after the library has loaded, the one that
  follows \<open>setState\<close> in \<open>initAMap\<close>: the bounds prop is the same array as at construction,
  and \<open>setBounds\<close> is called.
\<close>

theorem bounds_memo_counterexample:
  "run utils_spec [DidMount, Onload MapsJs, Onload UiJs, Onload LocaJs] ex_init =
     Some ([AppendScript MapsJs, AppendScript UiJs, AppendScript LocaJs, InitAMapUI,
            NewMap Undefined ex_options (Ref 4)]
           @ fst (bindInstanceEvent (Ref 4)
                    (map (\<lambda>k. (k, createEventCallback k (Ref 4))) mapEventKeys) [])
           @ [Invoke (Ref 4) ''setBounds'' [Ref 5]],
           ex_first)
   \<and> this_props ex_init = ex_props
   \<and> this_props ex_first = ex_props
   \<and> isShallowEqual utils_spec (hp ex_first) (get ex_props ''bounds'') (get ex_props ''bounds'')"
  by (intro conjI ex_run) (simp_all add: ex_init_eq ex_first_sel spec_equal_refl)


theorem bounds_memo_witness:
  "snd (parseMapOptions True (hp ex_loaded) ex_props) =
     hp ex_loaded @ [Inst AMap_Bounds [Ref 2, Ref 3]]
   \<and> get (fst (parseMapOptions True (hp ex_loaded) ex_props)) ''bounds'' = Ref 5
   \<and> get (fst (parseMapOptions True (hp ex_loaded) ex_props)) ''boundsProp'' = Ref 1
   \<and> invokes (this_map ex_loaded) ''setBounds'' (fst (componentDidUpdate utils_spec ex_loaded))
   \<and> \<not> invokes (this_map ex_first) ''setBounds'' (fst (componentDidUpdate utils_spec ex_first))"
proof -
  let ?same = "[(''zoom'', Num 3), (''center'', Ref 0), (''bounds'', Ref 6),
              (''boundsProp'', Ref 1)]"
  have arr: "deref (hp ex_loaded) (get ex_props ''bounds'') = Some (Arr [Ref 2, Ref 3])"
    by (simp add: ex_loaded_sel ex_props_def get_def deref_def ex_heap_def)
  have len: "length (hp ex_loaded) = 5" and b: "get ex_props ''bounds'' = Ref 1"
    by (simp_all add: ex_loaded_sel ex_heap_def ex_props_def get_def)
  note p1 = bounds_memo [where h = "hp ex_loaded" and p = ex_props and xs = "[Ref 2, Ref 3]",
      THEN conjunct1, THEN mp, OF arr]
  have live: "this_map ex_loaded \<noteq> Undefined" "this_map ex_first \<noteq> Undefined"
    by (simp_all add: ex_loaded_sel ex_first_sel)
  have neq: "\<not> isShallowEqual utils_spec (hp ex_first) (get (mapOptions ex_loaded) ''boundsProp'')
      (get ex_options1 ''boundsProp'')"
    by (simp add: ex_loaded_sel ex_options_def ex_options1_def get_def spec_equal_prim)
  have c2: "invokes (this_map ex_loaded) ''setBounds'' (fst (componentDidUpdate utils_spec ex_loaded))"
    using bounds_memo [where U = utils_spec and w = ex_loaded and nxt = ex_options1
        and h' = "hp ex_first", THEN conjunct2, THEN conjunct1, THEN mp,
        OF conjI [OF live(1) ex_loaded_parse]] neq
    by simp
  have prev: "mapOptions ex_first = fst (parseMapOptions True (hp ex_loaded) ex_props)"
    using ex_loaded_parse by (simp add: ex_loaded_sel ex_first_sel)
  have loaded: "windowAMap ex_first" by (simp add: ex_first_sel)
  have eq: "isShallowEqual utils_spec ex_live_heap (if True then get ex_props ''bounds'' else Undefined)
      (get (this_props ex_first) ''bounds'')"
    by (simp add: ex_first_sel spec_equal_refl)
  have c3: "\<not> invokes (this_map ex_first) ''setBounds'' (fst (componentDidUpdate utils_spec ex_first))"
    using bounds_memo [where U = utils_spec and w = ex_first and d = True
        and ?h0.0 = "hp ex_loaded" and ?p0.0 = ex_props and nxt = ?same and h' = ex_live_heap,
        THEN conjunct2, THEN conjunct2, THEN mp,
        OF conjI [OF live(2) conjI [OF loaded conjI [OF prev ex_first_parse]]]] eq
    by simp
  from p1 c2 c3 show ?thesis by (simp add: len b)
qed

section \<open>What the parsers leave alone\<close>

lemma deref_append: "deref h v = Some ob \<Longrightarrow> deref (h @ ext) v = Some ob"
  by (auto simp: deref_def nth_append split: jsval.splits if_splits)

lemma instanceOf_append: "instanceOf h v c \<Longrightarrow> instanceOf (h @ ext) v c"
proof -
  assume a: "instanceOf h v c"
  then obtain ob where ob: "deref h v = Some ob"
    by (auto simp: instanceOf_def split: option.splits)
  then have "deref (h @ ext) v = Some ob" by (rule deref_append)
  with a ob show ?thesis by (simp add: instanceOf_def)
qed

lemma instanceOf_fresh: "instanceOf (h @ [Inst c args]) (Ref (length h)) c"
  by (simp add: instanceOf_def deref_def)

lemma toPixel_result:
  assumes "toPixel h v dflt = (px, h')"
  shows "instanceOf h' px AMap_Pixel \<and> (\<exists>ext. h' = h @ ext)"
  using assms
  by (auto simp: toPixel_def alloc_def instanceOf_fresh Let_def
      split: if_splits option.splits hobj.splits)

lemma parseMapOptions_heap: "\<exists>ext. snd (parseMapOptions d h p) = h @ ext"
  by (auto simp: parseMapOptions_def alloc_def Let_def split_beta split: option.splits hobj.splits)

lemma parseMapOptions_keys:
  "fst ` set (fst (parseMapOptions d h p)) =
     (fst ` set p - set (mapLoaderKeys @ mapEventKeys)) \<union> {''bounds'', ''boundsProp''}"
  by (auto simp: parseMapOptions_def Let_def split_beta keys_update keys_omit)

lemma parseMapOptions_other:
  assumes "k \<notin> set (mapLoaderKeys @ mapEventKeys)" "k \<noteq> ''bounds''" "k \<noteq> ''boundsProp''"
  shows "get (fst (parseMapOptions d h p)) k = get p k"
  using assms by (simp add: parseMapOptions_def Let_def split_beta get_update get_omit)

lemma markerIcon_result:
  assumes "markerIcon h icon = (v, h')"
  shows "(v = Null \<or> instanceOf h' v AMap_Icon) \<and> (\<exists>ext. h' = h @ ext)"
proof (cases "isNullVoid icon")
  case True
  with assms show ?thesis by (simp add: markerIcon_def)
next
  case nv: False
  show ?thesis
  proof (cases "instanceOf h icon AMap_Icon")
    case True
    with nv assms show ?thesis by (auto simp: markerIcon_def)
  next
    case False
    obtain px ha where px: "toPixel h (getProp h icon ''imageOffset'') [Num 0, Num 0] = (px, ha)"
      by (cases "toPixel h (getProp h icon ''imageOffset'') [Num 0, Num 0]")
    from toPixel_result [OF px] obtain ext where ext: "ha = h @ ext" by blast
    from nv False px assms have v: "v = Ref (Suc (length ha))"
      and h': "h' = ha @ [Obj [(''image'', getProp h icon ''image''), (''imageOffset'', px),
                 (''imageSize'', getProp h icon ''imageSize''), (''size'', getProp h icon ''size'')],
               Inst AMap_Icon [Ref (length ha)]]"
      by (simp_all add: markerIcon_def alloc_def)
    have "instanceOf h' v AMap_Icon"
      by (simp add: v h' instanceOf_def deref_def nth_append)
    moreover have "\<exists>e. h' = h @ e" by (simp add: h' ext)
    ultimately show ?thesis by blast
  qed
qed

lemma markerLabel_result:
  assumes "markerLabel h label = (v, h')"
  shows "(v = Null \<or> (\<exists>kvs. deref h' v = Some (Obj kvs) \<and>
            instanceOf h' (get kvs ''offset'') AMap_Pixel))
         \<and> (\<exists>ext. h' = h @ ext)"
proof (cases "isNullVoid label")
  case True
  with assms show ?thesis by (simp add: markerLabel_def)
next
  case False
  obtain px ha where px: "toPixel h (getProp h label ''offset'') [Num 0, Num 0] = (px, ha)"
    by (cases "toPixel h (getProp h label ''offset'') [Num 0, Num 0]")
  from toPixel_result [OF px] obtain ext where ext: "ha = h @ ext"
    and pixel: "instanceOf ha px AMap_Pixel" by blast
  from False px assms have v: "v = Ref (length ha)"
    and h': "h' = ha @ [Obj (AList.update ''offset'' px (spread h label))]"
    by (simp_all add: markerLabel_def alloc_def)
  have "deref h' v = Some (Obj (AList.update ''offset'' px (spread h label)))"
    by (simp add: v h' deref_def)
  moreover have "instanceOf h' (get (AList.update ''offset'' px (spread h label)) ''offset'') AMap_Pixel"
    using pixel by (simp add: get_update h' instanceOf_append)
  moreover have "\<exists>e. h' = h @ e" by (simp add: h' ext)
  ultimately show ?thesis by blast
qed

lemma parseMarkerOptions_keys:
  "fst ` set (fst (parseMarkerOptions h p)) =
     (fst ` set p - set markerEventKeys) \<union> {''icon'', ''label'', ''offset''}"
  by (auto simp: parseMarkerOptions_def Let_def split_beta keys_update keys_omit)

lemma parseMarkerOptions_other:
  assumes "k \<notin> set markerEventKeys" "k \<noteq> ''icon''" "k \<noteq> ''label''" "k \<noteq> ''offset''"
  shows "get (fst (parseMarkerOptions h p)) k = get p k"
  using assms by (simp add: parseMarkerOptions_def Let_def split_beta get_update get_omit)

lemma parseMarkerOptions_shapes:
  assumes "parseMarkerOptions h p = (ob, h')"
  shows "instanceOf h' (get ob ''offset'') AMap_Pixel
     \<and> (get ob ''icon'' = Null \<or> instanceOf h' (get ob ''icon'') AMap_Icon)
     \<and> (get ob ''label'' = Null \<or>
         (\<exists>kvs. deref h' (get ob ''label'') = Some (Obj kvs) \<and>
                instanceOf h' (get kvs ''offset'') AMap_Pixel))
     \<and> (\<exists>ext. h' = h @ ext)"
proof -
  define mo where "mo = omit markerEventKeys p"
  obtain label h0 where l0: "(if get mo ''label'' = Undefined
              then (let (a, h') = alloc (Obj []) h in (Ref a, h'))
              else (get mo ''label'', h)) = (label, h0)"
    by (cases "(if get mo ''label'' = Undefined
              then (let (a, h') = alloc (Obj []) h in (Ref a, h'))
              else (get mo ''label'', h))")
  obtain ic h1 where ic: "markerIcon h0 (get mo ''icon'') = (ic, h1)"
    by (cases "markerIcon h0 (get mo ''icon'')")
  obtain lb h2 where lb: "markerLabel h1 label = (lb, h2)"
    by (cases "markerLabel h1 label")
  obtain off h3 where off: "toPixel h2 (get mo ''offset'') [Num (- 10), Num (- 34)] = (off, h3)"
    by (cases "toPixel h2 (get mo ''offset'') [Num (- 10), Num (- 34)]")
  have res: "ob = AList.update ''offset'' off (AList.update ''label'' lb (AList.update ''icon'' ic mo))"
    "h' = h3"
    using assms l0 ic lb off by (simp_all add: parseMarkerOptions_def mo_def [symmetric] Let_def)
  have e0: "\<exists>e. h0 = h @ e"
    using l0 by (auto simp: alloc_def split: if_splits)
  from markerIcon_result [OF ic] have i1: "ic = Null \<or> instanceOf h1 ic AMap_Icon"
    and e1: "\<exists>e. h1 = h0 @ e" by blast+
  from markerLabel_result [OF lb]
  have l2: "lb = Null \<or> (\<exists>kvs. deref h2 lb = Some (Obj kvs) \<and>
            instanceOf h2 (get kvs ''offset'') AMap_Pixel)"
    and e2: "\<exists>e. h2 = h1 @ e" by blast+
  from toPixel_result [OF off] have o3: "instanceOf h3 off AMap_Pixel"
    and e3: "\<exists>e. h3 = h2 @ e" by blast+
  have "instanceOf h' (get ob ''offset'') AMap_Pixel"
    using o3 by (simp add: res get_update)
  moreover have "get ob ''icon'' = Null \<or> instanceOf h' (get ob ''icon'') AMap_Icon"
    using i1 e2 e3 by (auto simp: res get_update instanceOf_append)
  moreover have "get ob ''label'' = Null \<or>
         (\<exists>kvs. deref h' (get ob ''label'') = Some (Obj kvs) \<and>
                instanceOf h' (get kvs ''offset'') AMap_Pixel)"
    using l2 e3 by (auto simp: res get_update instanceOf_append deref_append)
  moreover have "\<exists>e. h' = h @ e"
    using e0 e1 e2 e3 by (auto simp: res)
  ultimately show ?thesis by blast
qed


lemma parseMapOptions_bounds:
  "get (fst (parseMapOptions d h p)) ''bounds'' =
     (if \<not> d then Undefined
      else (case deref h (get p ''bounds'') of
              Some (Arr xs) \<Rightarrow> Ref (length h)
            | _ \<Rightarrow> get p ''bounds''))"
proof -
  have g: "get (omit (mapLoaderKeys @ mapEventKeys) p) ''bounds'' = get p ''bounds''"
    by (simp add: get_omit mapLoaderKeys_def mapEventKeys_def)
  show ?thesis
    by (auto simp: parseMapOptions_def g get_update Let_def split_beta instanceOf_def alloc_def
        split: option.splits hobj.splits)
qed

text \<open>
  C6, as amended. \<open>parseMapOptions\<close> returns an object without the event-callback keys and
  without the loader-only keys; every other prop except \<open>bounds\<close> and \<open>boundsProp\<close> passes
  through unchanged; \<open>bounds\<close> is reshaped, and \<open>boundsProp\<close> is set to the bounds prop (to
  undefined while the library is not loaded), whatever the props hold under that name.
  \<open>parseMarkerOptions\<close> returns an object without the callback keys; every other prop
  except \<open>icon\<close>, \<open>label\<close> and \<open>offset\<close> passes through unchanged; \<open>offset\<close> becomes a Pixel,
  \<open>icon\<close> null or an Icon, \<open>label\<close> null or an object whose offset is a Pixel. Neither
  parser changes a heap cell that existed before.
\<close>

theorem parse_separates:
  "(k \<in> set (mapLoaderKeys @ mapEventKeys) \<longrightarrow> k \<notin> fst ` set (fst (parseMapOptions d h p)))
   \<and> (k \<notin> set (mapLoaderKeys @ mapEventKeys) \<and> k \<noteq> ''bounds'' \<and> k \<noteq> ''boundsProp'' \<longrightarrow>
        get (fst (parseMapOptions d h p)) k = get p k \<and>
        (k \<in> fst ` set (fst (parseMapOptions d h p))) = (k \<in> fst ` set p))
   \<and> get (fst (parseMapOptions d h p)) ''boundsProp'' = (if d then get p ''bounds'' else Undefined)
   \<and> get (fst (parseMapOptions d h p)) ''bounds'' =
        (if \<not> d then Undefined
         else (case deref h (get p ''bounds'') of
                 Some (Arr xs) \<Rightarrow> Ref (length h)
               | _ \<Rightarrow> get p ''bounds''))
   \<and> (\<exists>ext. snd (parseMapOptions d h p) = h @ ext)
   \<and> (k \<in> set markerEventKeys \<longrightarrow> k \<notin> fst ` set (fst (parseMarkerOptions h p)))
   \<and> (k \<notin> set markerEventKeys \<and> k \<noteq> ''icon'' \<and> k \<noteq> ''label'' \<and> k \<noteq> ''offset'' \<longrightarrow>
        get (fst (parseMarkerOptions h p)) k = get p k \<and>
        (k \<in> fst ` set (fst (parseMarkerOptions h p))) = (k \<in> fst ` set p))
   \<and> instanceOf (snd (parseMarkerOptions h p)) (get (fst (parseMarkerOptions h p)) ''offset'')
        AMap_Pixel
   \<and> (get (fst (parseMarkerOptions h p)) ''icon'' = Null \<or>
       instanceOf (snd (parseMarkerOptions h p)) (get (fst (parseMarkerOptions h p)) ''icon'')
         AMap_Icon)
   \<and> (get (fst (parseMarkerOptions h p)) ''label'' = Null \<or>
       (\<exists>kvs. deref (snd (parseMarkerOptions h p)) (get (fst (parseMarkerOptions h p)) ''label'') =
                 Some (Obj kvs) \<and>
              instanceOf (snd (parseMarkerOptions h p)) (get kvs ''offset'') AMap_Pixel))
   \<and> (\<exists>ext. snd (parseMarkerOptions h p) = h @ ext)"
proof -
  have shapes: "instanceOf (snd (parseMarkerOptions h p)) (get (fst (parseMarkerOptions h p)) ''offset'')
        AMap_Pixel
   \<and> (get (fst (parseMarkerOptions h p)) ''icon'' = Null \<or>
       instanceOf (snd (parseMarkerOptions h p)) (get (fst (parseMarkerOptions h p)) ''icon'')
         AMap_Icon)
   \<and> (get (fst (parseMarkerOptions h p)) ''label'' = Null \<or>
       (\<exists>kvs. deref (snd (parseMarkerOptions h p)) (get (fst (parseMarkerOptions h p)) ''label'') =
                 Some (Obj kvs) \<and>
              instanceOf (snd (parseMarkerOptions h p)) (get kvs ''offset'') AMap_Pixel))
   \<and> (\<exists>ext. snd (parseMarkerOptions h p) = h @ ext)"
    by (rule parseMarkerOptions_shapes) simp
  have m1: "k \<in> set (mapLoaderKeys @ mapEventKeys) \<longrightarrow> k \<notin> fst ` set (fst (parseMapOptions d h p))"
    by (auto simp: parseMapOptions_keys mapLoaderKeys_def mapEventKeys_def)
  have m2: "k \<notin> set (mapLoaderKeys @ mapEventKeys) \<and> k \<noteq> ''bounds'' \<and> k \<noteq> ''boundsProp'' \<longrightarrow>
        get (fst (parseMapOptions d h p)) k = get p k \<and>
        (k \<in> fst ` set (fst (parseMapOptions d h p))) = (k \<in> fst ` set p)"
    by (auto simp: parseMapOptions_keys parseMapOptions_other)
  have k1: "k \<in> set markerEventKeys \<longrightarrow> k \<notin> fst ` set (fst (parseMarkerOptions h p))"
    by (auto simp: parseMarkerOptions_keys markerEventKeys_def)
  have k2: "k \<notin> set markerEventKeys \<and> k \<noteq> ''icon'' \<and> k \<noteq> ''label'' \<and> k \<noteq> ''offset'' \<longrightarrow>
        get (fst (parseMarkerOptions h p)) k = get p k \<and>
        (k \<in> fst ` set (fst (parseMarkerOptions h p))) = (k \<in> fst ` set p)"
    by (auto simp: parseMarkerOptions_keys parseMarkerOptions_other)
  from m1 m2 k1 k2 shapes parseMapOptions_boundsProp [of d h p] parseMapOptions_bounds [of d h p]
    parseMapOptions_heap [of d h p]
  show ?thesis by (intro conjI) blast+
qed

text \<open>
  The claim as stated fails for a prop named \<open>boundsProp\<close>: it is neither a callback key
  nor a loader key nor \<open>bounds\<close>, and it does not pass through.
\<close>

theorem parse_separates_counterexample:
  "parseMapOptions True [] [(''zoom'', Num 3), (''boundsProp'', Num 1)] =
     ([(''zoom'', Num 3), (''boundsProp'', Undefined), (''bounds'', Undefined)], [])
   \<and> get [(''zoom'', Num 3), (''boundsProp'', Num 1)] ''boundsProp'' = Num 1
   \<and> ''boundsProp'' \<notin> set (mapLoaderKeys @ mapEventKeys)
   \<and> ''boundsProp'' \<noteq> ''bounds''"
  by (simp add: parseMapOptions_def omit_def mapLoaderKeys_def mapEventKeys_def get_def
      instanceOf_def)

theorem parse_separates_witness:
  "''onClick'' \<notin> fst ` set (fst (parseMapOptions True (hp ex_loaded) ex_props))
   \<and> get (fst (parseMapOptions True (hp ex_loaded) ex_props)) ''zoom'' = Num 3
   \<and> ''zoom'' \<in> fst ` set (fst (parseMapOptions True (hp ex_loaded) ex_props))
   \<and> ''onClick'' \<notin> fst ` set (fst (parseMarkerOptions ex_marker_heap ex_marker_props))
   \<and> get (fst (parseMarkerOptions ex_marker_heap ex_marker_props)) ''title'' = Str ''a''
   \<and> ''title'' \<in> fst ` set (fst (parseMarkerOptions ex_marker_heap ex_marker_props))"
proof -
  have k1: "''onClick'' \<in> set (mapLoaderKeys @ mapEventKeys)"
    and k2: "''zoom'' \<notin> set (mapLoaderKeys @ mapEventKeys) \<and> ''zoom'' \<noteq> ''bounds'' \<and>
             ''zoom'' \<noteq> ''boundsProp''"
    and k3: "''onClick'' \<in> set markerEventKeys"
    and k4: "''title'' \<notin> set markerEventKeys \<and> ''title'' \<noteq> ''icon'' \<and> ''title'' \<noteq> ''label'' \<and>
             ''title'' \<noteq> ''offset''"
    by (simp_all add: mapLoaderKeys_def mapEventKeys_def markerEventKeys_def)
  have v: "get ex_props ''zoom'' = Num 3" "''zoom'' \<in> fst ` set ex_props"
    "get ex_marker_props ''title'' = Str ''a''" "''title'' \<in> fst ` set ex_marker_props"
    by (simp_all add: ex_props_def ex_marker_props_def get_def)
  note a = parse_separates [where k = "''onClick''" and d = True and h = "hp ex_loaded"
      and p = ex_props, THEN conjunct1, THEN mp, OF k1]
  note b = parse_separates [where k = "''zoom''" and d = True and h = "hp ex_loaded"
      and p = ex_props, THEN conjunct2, THEN conjunct1, THEN mp, OF k2]
  note c = parse_separates [where k = "''onClick''" and h = ex_marker_heap
      and p = ex_marker_props, THEN conjunct2, THEN conjunct2, THEN conjunct2, THEN conjunct2,
      THEN conjunct2, THEN conjunct1, THEN mp, OF k3]
  note d = parse_separates [where k = "''title''" and h = ex_marker_heap
      and p = ex_marker_props, THEN conjunct2, THEN conjunct2, THEN conjunct2, THEN conjunct2,
      THEN conjunct2, THEN conjunct2, THEN conjunct1, THEN mp, OF k4]
  from a b c d v show ?thesis by simp
qed

section \<open>Event listener bridging\<close>

lemma bindInstanceEvent_fold:
  "fold (\<lambda>key (cs, l).
           (let eventName = toLowerCase (drop 2 key); handler = get cbs key
            in (cs @ [Invoke i ''on'' [Str eventName, handler]],
                l @ [\<lparr>eventName = eventName, handler = handler\<rparr>])))
        ks (cs0, l0) =
     (cs0 @ map (\<lambda>k. Invoke i ''on'' [Str (toLowerCase (drop 2 k)), get cbs k]) ks,
      l0 @ map (\<lambda>k. \<lparr>eventName = toLowerCase (drop 2 k), handler = get cbs k\<rparr>) ks)"
  by (induction ks arbitrary: cs0 l0) (simp_all add: Let_def)

lemma bindInstanceEvent_eq:
  "bindInstanceEvent i cbs l =
     (map (\<lambda>k. Invoke i ''on'' [Str (toLowerCase (drop 2 k)), get cbs k]) (keys cbs),
      l @ map (\<lambda>k. \<lparr>eventName = toLowerCase (drop 2 k), handler = get cbs k\<rparr>) (keys cbs))"
  by (simp add: bindInstanceEvent_def bindInstanceEvent_fold)

lemma listenersAfter_append:
  "listenersAfter i (cs @ cs') M = listenersAfter i cs' (listenersAfter i cs M)"
  by (simp add: listenersAfter_def)

lemma listener_eta: "\<lparr>eventName = eventName a, handler = handler a\<rparr> = (a :: listener)"
  by (cases a) simp

lemma listenersAfter_on:
  "listenersAfter i (map (\<lambda>l. Invoke i ''on'' [Str (eventName l), handler l]) ls) M = M + mset ls"
  by (induction ls arbitrary: M) (simp_all add: listenersAfter_def deliver_def listener_eta)

lemma listenersAfter_off:
  "listenersAfter i (map (\<lambda>l. Invoke i ''off'' [Str (eventName l), handler l]) ls) M = M - mset ls"
  by (induction ls arbitrary: M) (simp_all add: listenersAfter_def deliver_def listener_eta)

text \<open>
  C2. \<open>bindInstanceEvent\<close> calls \<open>instance.on\<close> once for each key of the callback object, in
  order, under the key without its first two characters and in lower case, and appends one
  record per key to the listener list; \<open>removeInstanceEvent\<close> on the list so built calls
  \<open>instance.off\<close> with exactly the pairs that were bound; and so, on an instance whose
  \<open>off\<close> removes a registration made by \<open>on\<close>, the listeners after binding and removing are
  the listeners before.
\<close>

theorem bind_remove_roundtrip:
  "bindInstanceEvent i cbs l =
     (map (\<lambda>k. Invoke i ''on'' [Str (toLowerCase (drop 2 k)), get cbs k]) (keys cbs),
      l @ map (\<lambda>k. \<lparr>eventName = toLowerCase (drop 2 k), handler = get cbs k\<rparr>) (keys cbs))
   \<and> removeInstanceEvent i (snd (bindInstanceEvent i cbs [])) =
       map (\<lambda>k. Invoke i ''off'' [Str (toLowerCase (drop 2 k)), get cbs k]) (keys cbs)
   \<and> listenersAfter i
        (fst (bindInstanceEvent i cbs []) @ removeInstanceEvent i (snd (bindInstanceEvent i cbs [])))
        M = M
   \<and> toLowerCase (drop 2 ''onClick'') = ''click''
   \<and> toLowerCase (drop 2 ''onDblClick'') = ''dblclick''"
proof (intro conjI)
  let ?ls = "map (\<lambda>k. \<lparr>eventName = toLowerCase (drop 2 k), handler = get cbs k\<rparr>) (keys cbs)"
  show "bindInstanceEvent i cbs l =
     (map (\<lambda>k. Invoke i ''on'' [Str (toLowerCase (drop 2 k)), get cbs k]) (keys cbs), l @ ?ls)"
    by (rule bindInstanceEvent_eq)
  show "removeInstanceEvent i (snd (bindInstanceEvent i cbs [])) =
       map (\<lambda>k. Invoke i ''off'' [Str (toLowerCase (drop 2 k)), get cbs k]) (keys cbs)"
    by (simp add: bindInstanceEvent_eq removeInstanceEvent_def o_def)
  have on: "fst (bindInstanceEvent i cbs []) =
      map (\<lambda>l. Invoke i ''on'' [Str (eventName l), handler l]) ?ls"
    by (simp add: bindInstanceEvent_eq o_def)
  have off: "removeInstanceEvent i (snd (bindInstanceEvent i cbs [])) =
      map (\<lambda>l. Invoke i ''off'' [Str (eventName l), handler l]) ?ls"
    by (simp add: bindInstanceEvent_eq removeInstanceEvent_def)
  show "listenersAfter i
        (fst (bindInstanceEvent i cbs []) @ removeInstanceEvent i (snd (bindInstanceEvent i cbs [])))
        M = M"
    by (simp only: on off listenersAfter_append listenersAfter_on listenersAfter_off) simp
  show "toLowerCase (drop 2 ''onClick'') = ''click''"
    by code_simp
  show "toLowerCase (drop 2 ''onDblClick'') = ''dblclick''"
    by code_simp
qed

text \<open>The handlers that the application gave for two events, bound on the map in cell 4.\<close>

theorem bind_remove_roundtrip_witness:
  "bindInstanceEvent (Ref 4) [(''onClick'', Fn 7), (''onDblClick'', Fn 8)] [] =
     ([Invoke (Ref 4) ''on'' [Str ''click'', Fn 7], Invoke (Ref 4) ''on'' [Str ''dblclick'', Fn 8]],
      [\<lparr>eventName = ''click'', handler = Fn 7\<rparr>, \<lparr>eventName = ''dblclick'', handler = Fn 8\<rparr>])
   \<and> removeInstanceEvent (Ref 4)
        (snd (bindInstanceEvent (Ref 4) [(''onClick'', Fn 7), (''onDblClick'', Fn 8)] [])) =
       [Invoke (Ref 4) ''off'' [Str ''click'', Fn 7], Invoke (Ref 4) ''off'' [Str ''dblclick'', Fn 8]]
   \<and> listenersAfter (Ref 4)
        (fst (bindInstanceEvent (Ref 4) [(''onClick'', Fn 7), (''onDblClick'', Fn 8)] []) @
         removeInstanceEvent (Ref 4)
           (snd (bindInstanceEvent (Ref 4) [(''onClick'', Fn 7), (''onDblClick'', Fn 8)] [])))
        {#\<lparr>eventName = ''click'', handler = Fn 9\<rparr>#} =
       {#\<lparr>eventName = ''click'', handler = Fn 9\<rparr>#}"
proof -
  note t = bind_remove_roundtrip [where i = "Ref 4"
      and cbs = "[(''onClick'', Fn 7), (''onDblClick'', Fn 8)]" and l = "[]"
      and M = "{#\<lparr>eventName = ''click'', handler = Fn 9\<rparr>#}"]
  have names: "toLowerCase ''Click'' = ''click''" "toLowerCase ''DblClick'' = ''dblclick''"
    using t by simp_all
  have k: "keys [(''onClick'', Fn 7), (''onDblClick'', Fn 8)] = [''onClick'', ''onDblClick'']"
    "get [(''onClick'', Fn 7), (''onDblClick'', Fn 8)] ''onClick'' = Fn 7"
    "get [(''onClick'', Fn 7), (''onDblClick'', Fn 8)] ''onDblClick'' = Fn 8"
    by (simp_all add: keys_def get_def)
  have b: "bindInstanceEvent (Ref 4) [(''onClick'', Fn 7), (''onDblClick'', Fn 8)] [] =
     ([Invoke (Ref 4) ''on'' [Str ''click'', Fn 7], Invoke (Ref 4) ''on'' [Str ''dblclick'', Fn 8]],
      [\<lparr>eventName = ''click'', handler = Fn 7\<rparr>, \<lparr>eventName = ''dblclick'', handler = Fn 8\<rparr>])"
    using t [THEN conjunct1] by (simp add: k names)
  have r: "removeInstanceEvent (Ref 4)
        (snd (bindInstanceEvent (Ref 4) [(''onClick'', Fn 7), (''onDblClick'', Fn 8)] [])) =
       [Invoke (Ref 4) ''off'' [Str ''click'', Fn 7], Invoke (Ref 4) ''off'' [Str ''dblclick'', Fn 8]]"
    using t [THEN conjunct2, THEN conjunct1] by (simp add: k names)
  note l = t [THEN conjunct2, THEN conjunct2, THEN conjunct1]
  show ?thesis by (intro conjI b r l)
qed

section \<open>The marker never re-renders\<close>

lemma updateMarkerWithAPI_calls:
  "c \<in> set (concat (map (\<lambda>(api, k). updateMarkerWithAPI U h m api (prev k) (nxt k) (new k)) tbl))
   \<Longrightarrow> \<exists>name args. c = Invoke m name args \<and> name \<in> fst ` set tbl"
  by (induction tbl) (auto simp: updateMarkerWithAPI_def split: if_splits)

lemma toggleVisible_calls:
  "c \<in> set (toggleVisible U h m p n) \<Longrightarrow> c = Invoke m ''show'' [] \<or> c = Invoke m ''hide'' []"
  by (auto simp: toggleVisible_def split: if_splits)

lemma shouldComponentUpdate_raises:
  assumes "parseMarkerOptions (mhp st) np = (nmo, h1)"
    and "cloneDeep U h1 nmo NEED_DEEP_COPY_FIELDS = Inl e"
  shows "shouldComponentUpdate U st np = Inl e"
  using assms by (simp add: shouldComponentUpdate_def)

text \<open>
  C10. Whenever \<open>shouldComponentUpdate\<close> returns, it returns false, and every call it made
  is \<open>show\<close>, \<open>hide\<close> or one of the sixteen setters, on the marker; it fails to return only
  when \<open>cloneDeep\<close> raises; and \<open>render\<close> returns null.
\<close>

theorem never_rerenders:
  "(case shouldComponentUpdate U st np of
      Inr (cs, st', r) \<Rightarrow>
        r = False \<and> Marker_render st' = Null \<and>
        (\<forall>c \<in> set cs. \<exists>name args.
            c = Invoke (marker st) name args \<and>
            name \<in> {''show'', ''hide''} \<union> fst ` set markerDiffs)
    | Inl e \<Rightarrow>
        cloneDeep U (snd (parseMarkerOptions (mhp st) np)) (fst (parseMarkerOptions (mhp st) np))
          NEED_DEEP_COPY_FIELDS = Inl e)
   \<and> Marker_render st = Null"
proof -
  obtain nmo h1 where parse: "parseMarkerOptions (mhp st) np = (nmo, h1)"
    by (cases "parseMarkerOptions (mhp st) np")
  show ?thesis
  proof (cases "cloneDeep U h1 nmo NEED_DEEP_COPY_FIELDS")
    case (Inl e)
    then show ?thesis
      by (simp add: shouldComponentUpdate_raises [OF parse Inl] parse Marker_render_def)
  next
    case (Inr res)
    obtain new h where res: "res = (new, h)" by (cases res)
    have clone: "cloneDeep U h1 nmo NEED_DEEP_COPY_FIELDS = Inr (new, h)"
      using Inr res by simp
    have "\<exists>name args. c = Invoke (marker st) name args \<and>
            name \<in> {''show'', ''hide''} \<union> fst ` set markerDiffs"
      if "c \<in> set (toggleVisible U h (marker st) (get (markerOptions st) ''visible'')
                      (get nmo ''visible'')
          @ concat (map (\<lambda>(api, k).
              updateMarkerWithAPI U h (marker st) api (get (markerOptions st) k) (get nmo k)
                (get new k)) markerDiffs))" for c
    proof -
      from that consider
        (toggle) "c \<in> set (toggleVisible U h (marker st) (get (markerOptions st) ''visible'')
                      (get nmo ''visible''))"
        | (setter) "c \<in> set (concat (map (\<lambda>(api, k).
              updateMarkerWithAPI U h (marker st) api (get (markerOptions st) k) (get nmo k)
                (get new k)) markerDiffs))"
        by auto
      then show ?thesis
      proof cases
        case toggle
        from toggleVisible_calls [OF this] show ?thesis by blast
      next
        case setter
        from updateMarkerWithAPI_calls [OF this] show ?thesis by blast
      qed
    qed
    then show ?thesis
      by (simp add: shouldComponentUpdate_calls [OF parse clone] Marker_render_def)
  qed
qed

theorem never_rerenders_witness:
  "shouldComponentUpdate utils_spec ex_marker ex_marker_props2 =
     Inr ([Invoke (Ref 4) ''setTitle'' [Str ''b'']],
          ex_marker\<lparr>mhp := mhp ex_marker @ [Arr [Num 120, Num 30]],
                    markerOptions := ex_marker_options2\<rparr>, False)
   \<and> Marker_render (ex_marker\<lparr>mhp := mhp ex_marker @ [Arr [Num 120, Num 30]],
                    markerOptions := ex_marker_options2\<rparr>) = Null
   \<and> ''setTitle'' \<in> {''show'', ''hide''} \<union> fst ` set markerDiffs"
proof -
  note t = never_rerenders [where U = utils_spec and st = ex_marker and np = ex_marker_props2,
      THEN conjunct1, unfolded ex_marker_update, simplified]
  from t have "Marker_render (ex_marker\<lparr>mhp := mhp ex_marker @ [Arr [Num 120, Num 30]],
                    markerOptions := ex_marker_options2\<rparr>) = Null"
    and "''setTitle'' \<in> {''show'', ''hide''} \<union> fst ` set markerDiffs"
    by simp_all
  then show ?thesis by (simp add: ex_marker_update)
qed

section \<open>Steps of the AMap component\<close>

lemma componentDidUpdate_keeps [simp]:
  "this_map (snd (componentDidUpdate U w)) = this_map w"
  "state_map (snd (componentDidUpdate U w)) = state_map w"
  "AMapEventListeners (snd (componentDidUpdate U w)) = AMapEventListeners w"
  "scripts (snd (componentDidUpdate U w)) = scripts w"
  "progress (snd (componentDidUpdate U w)) = progress w"
  "lifecycle (snd (componentDidUpdate U w)) = lifecycle w"
  "windowAMap (snd (componentDidUpdate U w)) = windowAMap w"
  "mapContainer (snd (componentDidUpdate U w)) = mapContainer w"
  by (simp_all add: componentDidUpdate_def Let_def split_beta)

lemma componentDidUpdate_skipped: "this_map w = Undefined \<Longrightarrow> componentDidUpdate U w = ([], w)"
  by (simp add: componentDidUpdate_def)

lemma AMap_parseEvents_eq:
  "AMap_parseEvents w = map (\<lambda>k. (k, createEventCallback k (this_map w))) mapEventKeys"
  by (simp add: AMap_parseEvents_def)

text \<open>The calls of each part are of one kind.\<close>

lemma bindInstanceEvent_calls:
  "c \<in> set (fst (bindInstanceEvent i cbs l)) \<Longrightarrow> \<exists>args. c = Invoke i ''on'' args"
  by (auto simp: bindInstanceEvent_eq)

lemma updateMapWithAPI_calls:
  "c \<in> set (updateMapWithAPI U h m api p n a) \<Longrightarrow> \<exists>args. c = Invoke m api args"
  by (auto simp: updateMapWithAPI_def Let_def split: if_splits)

lemma componentDidUpdate_only_setters:
  assumes "c \<in> set (fst (componentDidUpdate U w))"
  shows "\<exists>api args. c = Invoke (this_map w) api args \<and> api \<in> fst ` set mapDiffs"
proof (cases "this_map w = Undefined")
  case True
  with assms show ?thesis by (simp add: componentDidUpdate_skipped)
next
  case False
  obtain nxt h where parse: "parseMapOptions (windowAMap w) (hp w) (this_props w) = (nxt, h)"
    by (cases "parseMapOptions (windowAMap w) (hp w) (this_props w)")
  have "\<exists>api args. c = Invoke m api args \<and> api \<in> fst ` set tbl"
    if "c \<in> set (concat (map (\<lambda>(api, ck, vk).
            updateMapWithAPI U h m api (prev ck) (nx ck) (Some (nx vk))) tbl))"
    for m prev nx and tbl :: "(string \<times> string \<times> string) list"
    using that by (induction tbl) (auto dest: updateMapWithAPI_calls)
  with assms show ?thesis
    by (simp only: componentDidUpdate_calls [OF False parse])
qed

text \<open>\<open>setState\<close> and the update that follows it.\<close>

lemma setState_map_keeps [simp]:
  "this_map (snd (setState_map U w)) = this_map w"
  "state_map (snd (setState_map U w)) = (if lifecycle w = Mounted then this_map w else state_map w)"
  "AMapEventListeners (snd (setState_map U w)) = AMapEventListeners w"
  "scripts (snd (setState_map U w)) = scripts w"
  "progress (snd (setState_map U w)) = progress w"
  "lifecycle (snd (setState_map U w)) = lifecycle w"
  "windowAMap (snd (setState_map U w)) = windowAMap w"
  "mapContainer (snd (setState_map U w)) = mapContainer w"
  by (simp_all add: setState_map_def)

lemma setState_map_calls:
  assumes "c \<in> set (fst (setState_map U w))"
  shows "\<exists>api args. c = Invoke (this_map w) api args \<and> api \<in> fst ` set mapDiffs"
proof (cases "lifecycle w = Mounted")
  case True
  with assms have "c \<in> set (fst (componentDidUpdate U (w\<lparr>state_map := this_map w\<rparr>)))"
    by (simp add: setState_map_def)
  from componentDidUpdate_only_setters [OF this] show ?thesis by simp
next
  case False
  with assms show ?thesis by (simp add: setState_map_def)
qed

lemma setState_map_dropped: "lifecycle w \<noteq> Mounted \<Longrightarrow> setState_map U w = ([], w)"
  by (simp add: setState_map_def)

text \<open>The construction of the map.\<close>

lemma initAMap_newMap_eq:
  "initAMap_newMap w =
     (NewMap (mapContainer w) (mapOptions w) (Ref (length (hp w)))
      # fst (map_binds (Ref (length (hp w)))),
      w\<lparr>hp := hp w @ [Inst AMap_Map [mapContainer w]],
        this_map := Ref (length (hp w)),
        AMapEventListeners := Some (snd (map_binds (Ref (length (hp w))))),
        eventCallbacks :=
          Some (map (\<lambda>k. (k, createEventCallback k (Ref (length (hp w))))) mapEventKeys)\<rparr>)"
  by (simp add: initAMap_newMap_def AMap_bindEvents_eq alloc_def Let_def map_binds_def)

lemma construct_sel:
  "this_map (snd (initAMap_construct U w)) = Ref (length (hp w))"
  "state_map (snd (initAMap_construct U w)) =
     (if lifecycle w = Mounted then Ref (length (hp w)) else state_map w)"
  "AMapEventListeners (snd (initAMap_construct U w)) = Some (snd (map_binds (Ref (length (hp w)))))"
  "scripts (snd (initAMap_construct U w)) = scripts w"
  "progress (snd (initAMap_construct U w)) = Finished"
  "lifecycle (snd (initAMap_construct U w)) = lifecycle w"
  "windowAMap (snd (initAMap_construct U w)) = windowAMap w"
  "mapContainer (snd (initAMap_construct U w)) = mapContainer w"
  by (simp_all add: initAMap_construct_def initAMap_newMap_eq split_beta)

lemma construct_trace:
  "\<exists>ups. fst (initAMap_construct U w) =
            NewMap (mapContainer w) (mapOptions w) (Ref (length (hp w)))
            # fst (map_binds (Ref (length (hp w)))) @ ups \<and>
         (\<forall>x \<in> set ups. \<exists>api args.
             x = Invoke (Ref (length (hp w))) api args \<and> api \<in> fst ` set mapDiffs) \<and>
         (lifecycle w \<noteq> Mounted \<longrightarrow> ups = [])"
proof -
  let ?w1 = "snd (initAMap_newMap (w\<lparr>progress := Finished\<rparr>))"
  have m: "this_map ?w1 = Ref (length (hp w))" "lifecycle ?w1 = lifecycle w"
    by (simp_all add: initAMap_newMap_eq)
  have "fst (initAMap_construct U w) =
      NewMap (mapContainer w) (mapOptions w) (Ref (length (hp w)))
      # fst (map_binds (Ref (length (hp w)))) @ fst (setState_map U ?w1)"
    by (simp add: initAMap_construct_def initAMap_newMap_eq split_beta)
  moreover have "\<forall>x \<in> set (fst (setState_map U ?w1)). \<exists>api args.
      x = Invoke (Ref (length (hp w))) api args \<and> api \<in> fst ` set mapDiffs"
    using setState_map_calls [where U = U and w = ?w1] by (simp only: m) blast
  moreover have "lifecycle w \<noteq> Mounted \<longrightarrow> fst (setState_map U ?w1) = []"
    by (simp add: setState_map_def m)
  ultimately show ?thesis by blast
qed

lemma construct_calls:
  assumes "c \<in> set (fst (initAMap_construct U w))"
  shows "c = NewMap (mapContainer w) (mapOptions w) (Ref (length (hp w))) \<or>
   (\<exists>api args. c = Invoke (Ref (length (hp w))) api args \<and>
      (api = ''on'' \<or> api \<in> fst ` set mapDiffs))"
proof -
  from construct_trace [of U w] obtain ups where
    f: "fst (initAMap_construct U w) =
            NewMap (mapContainer w) (mapOptions w) (Ref (length (hp w)))
            # fst (map_binds (Ref (length (hp w)))) @ ups"
    and u: "\<forall>x \<in> set ups. \<exists>api args.
             x = Invoke (Ref (length (hp w))) api args \<and> api \<in> fst ` set mapDiffs"
    by blast
  from assms f consider "c = NewMap (mapContainer w) (mapOptions w) (Ref (length (hp w)))"
    | "c \<in> set (fst (map_binds (Ref (length (hp w)))))" | "c \<in> set ups"
    by auto
  then show ?thesis
  proof cases
    case 1
    then show ?thesis by simp
  next
    case 2
    then show ?thesis by (auto simp: map_binds_def dest: bindInstanceEvent_calls)
  next
    case 3
    with u show ?thesis by blast
  qed
qed

lemma componentDidMount_sel:
  "scripts (snd (componentDidMount U w)) s =
     (if \<not> windowAMap w \<and> s = MapsJs then Loading else scripts w s)"
  "this_map (snd (componentDidMount U w)) =
     (if windowAMap w then Ref (length (hp w)) else this_map w)"
  "lifecycle (snd (componentDidMount U w)) = lifecycle w"
  by (simp_all add: componentDidMount_def initAMap_def loadScript_def construct_sel)

text \<open>The invariants are kept by every step.\<close>

lemma wired_facts:
  assumes "wired w"
  shows "progress w \<noteq> Finished \<Longrightarrow> this_map w = Undefined \<and> state_map w = Undefined"
    and "progress w \<noteq> NotStarted \<Longrightarrow> lifecycle w \<noteq> Constructed"
  using assms by (auto simp: wired_def)

lemma wired_construct:
  "state_map w = Undefined \<Longrightarrow> lifecycle w \<noteq> Constructed \<Longrightarrow>
   wired (snd (initAMap_construct U w))"
  by (simp add: wired_def construct_sel AMap_parseEvents_eq map_binds_def)

lemma wired_cong:
  "state_map w' = state_map w \<Longrightarrow> this_map w' = this_map w \<Longrightarrow>
   AMapEventListeners w' = AMapEventListeners w \<Longrightarrow> progress w' = progress w \<Longrightarrow>
   lifecycle w' = lifecycle w \<or> lifecycle w' \<noteq> Constructed \<Longrightarrow> wired w \<Longrightarrow> wired w'"
  by (auto simp: wired_def AMap_parseEvents_eq)

lemma wired_waiting:
  "state_map w' = Undefined \<Longrightarrow> this_map w' = Undefined \<Longrightarrow> lifecycle w' \<noteq> Constructed \<Longrightarrow>
   wired w'"
  by (simp add: wired_def)

lemma wired_step:
  assumes "wired w" and "step U e w = Some (cs, w')"
  shows "wired w'"
proof (cases e)
  case DidMount
  with assms have w': "w' = snd (componentDidMount U (w\<lparr>lifecycle := Mounted\<rparr>))"
    and c: "lifecycle w = Constructed"
    by (auto split: if_splits)
  from assms(1) c have "progress w = NotStarted" by (simp add: wired_def)
  with wired_facts(1) [OF assms(1)] have u: "this_map w = Undefined" "state_map w = Undefined"
    by simp_all
  show ?thesis
  proof (cases "windowAMap w")
    case True
    then have "w' = snd (initAMap_construct U (w\<lparr>lifecycle := Mounted\<rparr>))"
      by (simp add: w' componentDidMount_def initAMap_def)
    with u show ?thesis by (simp add: wired_construct)
  next
    case False
    with u show ?thesis
      by (intro wired_waiting) (simp_all add: w' componentDidMount_def initAMap_def loadScript_def)
  qed
next
  case (DidUpdate p)
  with assms have w': "w' = snd (componentDidUpdate U (w\<lparr>this_props := p\<rparr>))"
    by (auto split: if_splits)
  show ?thesis
    by (rule wired_cong [OF _ _ _ _ _ assms(1)]) (simp_all add: w')
next
  case WillUnmount
  with assms have w': "w' = w\<lparr>lifecycle := Unmounted\<rparr>"
    by (auto split: if_splits)
  show ?thesis
    by (rule wired_cong [OF _ _ _ _ _ assms(1)]) (simp_all add: w')
next
  case (Onload s)
  with assms have w': "w' = snd (onload U s w)" by (auto split: if_splits)
  let ?w1 = "w\<lparr>scripts := (scripts w)(s := Loaded)\<rparr>"
  have same: "wired v" if "state_map v = state_map w" "this_map v = this_map w"
    "AMapEventListeners v = AMapEventListeners w" "progress v = progress w"
    "lifecycle v = lifecycle w" for v
    by (rule wired_cong [OF _ _ _ _ _ assms(1)]) (simp_all add: that)
  have waiting: "wired v" if "progress w \<noteq> Finished" "progress w \<noteq> NotStarted"
    "state_map v = state_map w" "this_map v = this_map w" "lifecycle v = lifecycle w" for v
    using that wired_facts [OF assms(1)] by (intro wired_waiting) simp_all
  have construct: "wired (snd (initAMap_construct U ?w1))"
    if "progress w \<noteq> Finished" "progress w \<noteq> NotStarted"
    using that wired_facts [OF assms(1)] by (intro wired_construct) simp_all
  show ?thesis
  proof (cases s)
    case MapsJs
    show ?thesis
    proof (cases "progress w = AwaitRequireAMap")
      case True
      then show ?thesis
        by (intro waiting)
           (simp_all add: w' MapsJs onload_def initAMap_afterRequireAMap_def loadScript_def
              Let_def)
    next
      case False
      then show ?thesis
        by (intro same) (simp_all add: w' MapsJs onload_def Let_def)
    qed
  next
    case UiJs
    show ?thesis
    proof (cases "progress w = AwaitAMapUI")
      case True
      show ?thesis
      proof (cases "scripts w LocaJs = Loaded")
        case l: True
        with True have "w' = snd (initAMap_construct U ?w1)"
          by (simp add: w' UiJs onload_def initAMap_afterAMapUI_def Let_def split_beta)
        with construct True show ?thesis by simp
      next
        case l: False
        with True show ?thesis
          by (intro waiting)
             (simp_all add: w' UiJs onload_def initAMap_afterAMapUI_def Let_def)
      qed
    next
      case False
      then show ?thesis
        by (intro same) (simp_all add: w' UiJs onload_def Let_def)
    qed
  next
    case LocaJs
    show ?thesis
    proof (cases "progress w = AwaitLoca")
      case True
      then have "w' = snd (initAMap_construct U ?w1)"
        by (simp add: w' LocaJs onload_def Let_def)
      with construct True show ?thesis by simp
    next
      case False
      then show ?thesis
        by (intro same) (simp_all add: w' LocaJs onload_def Let_def)
    qed
  qed
next
  case (Onerror s)
  with assms have w': "w' = w\<lparr>scripts := (scripts w)(s := Failed)\<rparr>"
    by (auto split: if_splits)
  show ?thesis
    by (rule wired_cong [OF _ _ _ _ _ assms(1)]) (simp_all add: w')
qed

lemma loading_inv_construct:
  "scripts w MapsJs = Loaded \<Longrightarrow> scripts w UiJs = Loaded \<Longrightarrow> scripts w LocaJs = Loaded \<Longrightarrow>
   lifecycle w \<noteq> Constructed \<Longrightarrow> loading_inv (snd (initAMap_construct U w))"
  by (simp add: construct_sel loading_inv_def)

lemma loading_inv_cong:
  "progress w' = progress w \<Longrightarrow> lifecycle w' = lifecycle w \<Longrightarrow> windowAMap w' = windowAMap w \<Longrightarrow>
   scripts w' = scripts w \<Longrightarrow> this_map w' = this_map w \<Longrightarrow> loading_inv w \<Longrightarrow> loading_inv w'"
  by (cases "progress w") (simp_all add: loading_inv_def)

lemma loading_inv_step:
  assumes "loading_inv w" and "step U e w = Some (cs, w')"
  shows "loading_inv w'"
proof (cases e)
  case DidMount
  with assms have w': "w' = snd (componentDidMount U (w\<lparr>lifecycle := Mounted\<rparr>))"
    and c: "lifecycle w = Constructed"
    by (auto split: if_splits)
  from assms(1) c have "progress w = NotStarted"
    by (cases "progress w") (simp_all add: loading_inv_def)
  with assms(1) show ?thesis
    by (simp add: w' componentDidMount_def initAMap_def loadScript_def loading_inv_def)
next
  case (DidUpdate p)
  with assms have "w' = snd (componentDidUpdate U (w\<lparr>this_props := p\<rparr>))"
    by (auto split: if_splits)
  with assms(1) show ?thesis
    by (auto intro: loading_inv_cong [where w = w])
next
  case WillUnmount
  with assms have w': "w' = w\<lparr>lifecycle := Unmounted\<rparr>" and m: "lifecycle w = Mounted"
    by (auto split: if_splits)
  from assms(1) m show ?thesis
    by (cases "progress w") (simp_all add: w' loading_inv_def)
next
  case (Onload s)
  with assms have w': "w' = snd (onload U s w)" and l: "scripts w s = Loading"
    by (auto split: if_splits)
  show ?thesis
  proof (cases s)
    case MapsJs
    with assms(1) l have "progress w = AwaitRequireAMap"
      by (cases "progress w") (simp_all add: loading_inv_def)
    with assms(1) MapsJs show ?thesis
      by (simp add: w' onload_def initAMap_afterRequireAMap_def loadScript_def loading_inv_def
          Let_def)
  next
    case UiJs
    with assms(1) l have p: "progress w = AwaitAMapUI"
      by (cases "progress w") (simp_all add: loading_inv_def)
    show ?thesis
    proof (cases "scripts w LocaJs = Loaded")
      case True
      with assms(1) p UiJs show ?thesis
        by (simp add: w' onload_def initAMap_afterAMapUI_def split_beta Let_def)
           (rule loading_inv_construct, simp_all add: loading_inv_def)
    next
      case False
      with assms(1) p UiJs show ?thesis
        by (cases "scripts w LocaJs")
           (simp_all add: w' onload_def initAMap_afterAMapUI_def loading_inv_def Let_def)
    qed
  next
    case LocaJs
    with assms(1) l have p: "progress w = AwaitAMapUI \<or> progress w = AwaitLoca"
      by (cases "progress w") (simp_all add: loading_inv_def)
    then show ?thesis
    proof
      assume "progress w = AwaitAMapUI"
      with assms(1) LocaJs show ?thesis
        by (simp add: w' onload_def loading_inv_def Let_def)
    next
      assume "progress w = AwaitLoca"
      with assms(1) LocaJs show ?thesis
        by (simp add: w' onload_def Let_def)
           (rule loading_inv_construct, simp_all add: loading_inv_def)
    qed
  qed
next
  case (Onerror s)
  with assms have w': "w' = w\<lparr>scripts := (scripts w)(s := Failed)\<rparr>" and l: "scripts w s = Loading"
    by (auto split: if_splits)
  from assms(1) l show ?thesis
    by (cases "progress w"; cases s) (simp_all add: w' loading_inv_def)
qed


section \<open>Runs of the AMap component\<close>

lemma run_Cons_Some:
  "run U (e # es) w = Some (cs, w') \<Longrightarrow>
   \<exists>c1 w1 c2. step U e w = Some (c1, w1) \<and> run U es w1 = Some (c2, w') \<and> cs = c1 @ c2"
  by (auto split: option.splits)

lemma wired_run: "wired w \<Longrightarrow> run U evs w = Some (cs, w') \<Longrightarrow> wired w'"
proof (induction evs arbitrary: w cs)
  case Nil
  then show ?case by simp
next
  case (Cons e es)
  from run_Cons_Some [OF Cons.prems(2)] obtain c1 w1 c2
    where "step U e w = Some (c1, w1)" "run U es w1 = Some (c2, w')" by blast
  with Cons.IH wired_step [OF Cons.prems(1)] show ?case by blast
qed

lemma loading_inv_run: "loading_inv w \<Longrightarrow> run U evs w = Some (cs, w') \<Longrightarrow> loading_inv w'"
proof (induction evs arbitrary: w cs)
  case Nil
  then show ?case by simp
next
  case (Cons e es)
  from run_Cons_Some [OF Cons.prems(2)] obtain c1 w1 c2
    where "step U e w = Some (c1, w1)" "run U es w1 = Some (c2, w')" by blast
  with Cons.IH loading_inv_step [OF Cons.prems(1)] show ?case by blast
qed

lemma wired_constructor: "wired (AMap_constructor d h c p)"
  by (simp add: AMap_constructor_def wired_def split_beta)

lemma loading_inv_constructor: "loading_inv (AMap_constructor False h c p)"
  by (simp add: AMap_constructor_def loading_inv_def split_beta)

lemma unmount_calls:
  "AMap_componentWillUnmount w = Inr cs \<Longrightarrow> c \<in> set cs \<Longrightarrow>
   \<exists>name args. c = Invoke (state_map w) name args"
  by (auto simp: AMap_componentWillUnmount_def removeInstanceEvent_def Let_def
      split: if_splits option.splits)

lemma unmount_wired: "wired w \<Longrightarrow> \<exists>cs. AMap_componentWillUnmount w = Inr cs"
  by (auto simp: AMap_componentWillUnmount_def wired_def Let_def)

lemma step_no_uncaught:
  assumes "wired w" and "step U e w = Some (cs, w')"
  shows "Uncaught x \<notin> set cs"
proof (cases e)
  case DidMount
  with assms(2) have "cs = fst (componentDidMount U (w\<lparr>lifecycle := Mounted\<rparr>))"
    by (auto split: if_splits)
  then show ?thesis
    by (auto simp: componentDidMount_def initAMap_def loadScript_def split: if_splits
        dest: construct_calls)
next
  case (DidUpdate p)
  with assms(2) have "cs = fst (componentDidUpdate U (w\<lparr>this_props := p\<rparr>))"
    by (auto split: if_splits)
  then show ?thesis by (auto dest: componentDidUpdate_only_setters)
next
  case WillUnmount
  from unmount_wired [OF assms(1)] obtain cs' where u: "AMap_componentWillUnmount w = Inr cs'"
    by blast
  with WillUnmount assms(2) have "cs = cs'" by (auto split: if_splits)
  with u show ?thesis by (auto dest: unmount_calls)
next
  case (Onload s)
  with assms(2) have "cs = fst (onload U s w)" by (auto split: if_splits)
  then show ?thesis
    by (cases s)
       (auto simp: onload_def initAMap_afterRequireAMap_def initAMap_afterAMapUI_def
          loadScript_def Let_def split_beta split: if_splits dest: construct_calls)
next
  case (Onerror s)
  with assms(2) show ?thesis by (auto split: if_splits)
qed

lemma run_no_uncaught: "wired w \<Longrightarrow> run U evs w = Some (cs, w') \<Longrightarrow> Uncaught x \<notin> set cs"
proof (induction evs arbitrary: w cs)
  case Nil
  then show ?case by simp
next
  case (Cons e es)
  from run_Cons_Some [OF Cons.prems(2)] obtain c1 w1 c2
    where s: "step U e w = Some (c1, w1)" and r: "run U es w1 = Some (c2, w')"
      and cs: "cs = c1 @ c2" by blast
  from step_no_uncaught [OF Cons.prems(1) s] Cons.IH [OF wired_step [OF Cons.prems(1) s] r]
  show ?case by (simp add: cs)
qed

section \<open>Teardown\<close>

lemma Marker_constructor_listeners:
  assumes "Marker_constructor U h p m = Inr (cs, st)"
  shows "marker_listeners st = snd (bindInstanceEvent (marker st) (Marker_parseEvents (marker st)) [])"
  using assms
  by (auto simp: Marker_constructor_def Marker_bindEvents_def Let_def split_beta
      split: option.splits sum.splits)

text \<open>
  C7. \<open>AMap.componentWillUnmount\<close> makes no call and raises nothing while the state holds no
  map; when it holds one, it calls \<open>off\<close> for every recorded listener and then \<open>destroy\<close>. In
  every run of the component the state holds a map only together with the listeners that
  were bound on it, so unmounting never raises. \<open>Marker.componentWillUnmount\<close> calls \<open>off\<close>
  for every listener that its constructor recorded and then \<open>setMap(null)\<close>.
\<close>

theorem unmount_teardown:
  "(state_map w = Undefined \<longrightarrow> AMap_componentWillUnmount w = Inr [])
   \<and> (state_map w \<noteq> Undefined \<and> AMapEventListeners w = Some ls \<longrightarrow>
        AMap_componentWillUnmount w =
          Inr (map (\<lambda>l. Invoke (state_map w) ''off'' [Str (eventName l), handler l]) ls
               @ [Invoke (state_map w) ''destroy'' []]))
   \<and> (run U evs (AMap_constructor d h c p) = Some (cs, w') \<longrightarrow>
        (\<forall>x. Uncaught x \<notin> set cs) \<and>
        (state_map w' \<noteq> Undefined \<longrightarrow>
           state_map w' = this_map w' \<and>
           AMapEventListeners w' =
             Some (snd (bindInstanceEvent (this_map w') (AMap_parseEvents w') []))) \<and>
        (\<exists>cs'. AMap_componentWillUnmount w' = Inr cs' \<and>
           invokes (state_map w') ''destroy'' cs' = (state_map w' \<noteq> Undefined)))
   \<and> Marker_componentWillUnmount st =
        (map (\<lambda>l. Invoke (marker st) ''off'' [Str (eventName l), handler l]) (marker_listeners st)
         @ [Invoke (marker st) ''setMap'' [Null]],
         st\<lparr>marker := Null\<rparr>)
   \<and> (Marker_constructor U hm pm m = Inr (csm, st) \<longrightarrow>
        marker_listeners st =
          snd (bindInstanceEvent (marker st) (Marker_parseEvents (marker st)) []))"
proof (intro conjI impI allI)
  assume "state_map w = Undefined"
  then show "AMap_componentWillUnmount w = Inr []"
    by (simp add: AMap_componentWillUnmount_def)
next
  assume "state_map w \<noteq> Undefined \<and> AMapEventListeners w = Some ls"
  then show "AMap_componentWillUnmount w =
          Inr (map (\<lambda>l. Invoke (state_map w) ''off'' [Str (eventName l), handler l]) ls
               @ [Invoke (state_map w) ''destroy'' []])"
    by (simp add: AMap_componentWillUnmount_def removeInstanceEvent_def Let_def)
next
  fix x
  assume r: "run U evs (AMap_constructor d h c p) = Some (cs, w')"
  show "Uncaught x \<notin> set cs"
    by (rule run_no_uncaught [OF wired_constructor r])
next
  assume r: "run U evs (AMap_constructor d h c p) = Some (cs, w')"
  assume "state_map w' \<noteq> Undefined"
  with wired_run [OF wired_constructor r]
  show "state_map w' = this_map w'"
    and "AMapEventListeners w' =
             Some (snd (bindInstanceEvent (this_map w') (AMap_parseEvents w') []))"
    by (simp_all add: wired_def)
next
  assume r: "run U evs (AMap_constructor d h c p) = Some (cs, w')"
  have wd: "wired w'" by (rule wired_run [OF wired_constructor r])
  show "\<exists>cs'. AMap_componentWillUnmount w' = Inr cs' \<and>
           invokes (state_map w') ''destroy'' cs' = (state_map w' \<noteq> Undefined)"
  proof (cases "state_map w' = Undefined")
    case True
    then show ?thesis by (simp add: AMap_componentWillUnmount_def)
  next
    case False
    with wd obtain ls where "AMapEventListeners w' = Some ls" by (auto simp: wired_def)
    with False show ?thesis
      by (simp add: AMap_componentWillUnmount_def Let_def)
  qed
next
  show "Marker_componentWillUnmount st =
        (map (\<lambda>l. Invoke (marker st) ''off'' [Str (eventName l), handler l]) (marker_listeners st)
         @ [Invoke (marker st) ''setMap'' [Null]],
         st\<lparr>marker := Null\<rparr>)"
    by (simp add: Marker_componentWillUnmount_def removeInstanceEvent_def)
next
  assume "Marker_constructor U hm pm m = Inr (csm, st)"
  then show "marker_listeners st =
          snd (bindInstanceEvent (marker st) (Marker_parseEvents (marker st)) [])"
    by (rule Marker_constructor_listeners)
qed


text \<open>
  The example map before and after its scripts have loaded, a run in which it is unmounted
  before they load (the only call is the script element of the mount), and the example
  marker.
\<close>

theorem unmount_teardown_witness:
  "AMap_componentWillUnmount ex_init = Inr []
   \<and> run utils_spec [DidMount, WillUnmount] ex_init =
       Some ([AppendScript MapsJs],
             ex_init\<lparr>lifecycle := Unmounted, progress := AwaitRequireAMap,
                     scripts := (\<lambda>s. NotRequested)(MapsJs := Loading)\<rparr>)
   \<and> AMap_componentWillUnmount ex_loaded =
       Inr (map (\<lambda>l. Invoke (Ref 4) ''off'' [Str (eventName l), handler l])
              (snd (bindInstanceEvent (Ref 4)
                      (map (\<lambda>k. (k, createEventCallback k (Ref 4))) mapEventKeys) []))
            @ [Invoke (Ref 4) ''destroy'' []])
   \<and> state_map ex_first = this_map ex_first
   \<and> marker_listeners ex_marker =
       snd (bindInstanceEvent (marker ex_marker) (Marker_parseEvents (marker ex_marker)) [])"
proof -
  have none: "state_map ex_init = Undefined" by (simp add: ex_init_eq)
  note a = unmount_teardown [where w = ex_init, THEN conjunct1, THEN mp, OF none]
  have r: "run utils_spec [DidMount, WillUnmount] ex_init =
       Some ([AppendScript MapsJs],
             ex_init\<lparr>lifecycle := Unmounted, progress := AwaitRequireAMap,
                     scripts := (\<lambda>s. NotRequested)(MapsJs := Loading)\<rparr>)"
    by (simp add: ex_init_eq componentDidMount_def initAMap_def loadScript_def
        AMap_componentWillUnmount_def)
  have some: "state_map ex_loaded \<noteq> Undefined \<and>
      AMapEventListeners ex_loaded =
        Some (snd (bindInstanceEvent (Ref 4)
                (map (\<lambda>k. (k, createEventCallback k (Ref 4))) mapEventKeys) []))"
    by (simp add: ex_loaded_def)
  note b = unmount_teardown [where w = ex_loaded, THEN conjunct2, THEN conjunct1, THEN mp,
      OF some, unfolded ex_loaded_sel]
  have run: "run utils_spec [DidMount, Onload MapsJs, Onload UiJs, Onload LocaJs]
      (AMap_constructor False ex_heap Undefined ex_props) =
     Some ([AppendScript MapsJs, AppendScript UiJs, AppendScript LocaJs, InitAMapUI,
            NewMap Undefined ex_options (Ref 4)]
           @ fst (bindInstanceEvent (Ref 4)
                    (map (\<lambda>k. (k, createEventCallback k (Ref 4))) mapEventKeys) [])
           @ [Invoke (Ref 4) ''setBounds'' [Ref 5]],
           ex_first)"
    using ex_run by (simp only: ex_init_def)
  have live: "state_map ex_first \<noteq> Undefined" by (simp add: ex_first_def ex_loaded_sel)
  note c = unmount_teardown [where U = utils_spec and d = False and h = ex_heap
      and c = Undefined and p = ex_props and w' = ex_first, THEN conjunct2, THEN conjunct2,
      THEN conjunct1, THEN mp, OF run, THEN conjunct2, THEN conjunct1, THEN mp, OF live,
      THEN conjunct1]
  note d = unmount_teardown [where U = utils_spec and hm = ex_marker_heap
      and pm = ex_marker_props and st = ex_marker, THEN conjunct2, THEN conjunct2,
      THEN conjunct2, THEN conjunct2, THEN mp, OF ex_marker_constructed]
  show ?thesis by (intro conjI a r b c d)
qed

section \<open>Scripts, construction and destruction along a run\<close>

lemma onload_scripts:
  "scripts (snd (onload U s w)) s' = (if s' = s then Loaded else
     if s = MapsJs \<and> progress w = AwaitRequireAMap \<and> (s' = UiJs \<or> s' = LocaJs) then Loading
     else scripts w s')"
  by (cases s)
     (auto simp: onload_def initAMap_afterRequireAMap_def initAMap_afterAMapUI_def
        construct_sel loadScript_def Let_def split_beta)

lemma step_loaded:
  assumes "step U e w = Some (cs, w')" and "scripts w' s = Loaded"
  shows "scripts w s = Loaded \<or> e = Onload s"
proof (cases e)
  case DidMount
  with assms(1) have "w' = snd (componentDidMount U (w\<lparr>lifecycle := Mounted\<rparr>))"
    by (auto split: if_splits)
  with assms(2) show ?thesis
    by (auto simp: componentDidMount_sel split: if_splits)
next
  case (DidUpdate p)
  with assms have "w' = snd (componentDidUpdate U (w\<lparr>this_props := p\<rparr>))"
    by (auto split: if_splits)
  with assms(2) show ?thesis by simp
next
  case WillUnmount
  with assms show ?thesis by (auto split: if_splits)
next
  case (Onload s')
  with assms have "w' = snd (onload U s' w)" by (auto split: if_splits)
  with assms(2) Onload show ?thesis by (auto simp: onload_scripts split: if_splits)
next
  case (Onerror s')
  with assms show ?thesis by (auto split: if_splits)
qed

lemma run_loaded:
  "run U evs w = Some (cs, w') \<Longrightarrow> scripts w' s = Loaded \<Longrightarrow>
   scripts w s = Loaded \<or> Onload s \<in> set evs"
proof (induction evs arbitrary: w cs)
  case Nil
  then show ?case by simp
next
  case (Cons e es)
  from run_Cons_Some [OF Cons.prems(1)] obtain c1 w1 c2
    where s: "step U e w = Some (c1, w1)" and r: "run U es w1 = Some (c2, w')" by blast
  from Cons.IH [OF r Cons.prems(2)] step_loaded [OF s] show ?case by auto
qed

text \<open>
  A step that constructs the map: it is one of the three places where \<open>initAMap\<close> goes
  on to its last part.
\<close>

lemma step_constructs:
  assumes "step U e w = Some (cs, w')" and "NewMap c' ob m \<in> set cs"
  shows "\<exists>pre v. cs = pre @ fst (initAMap_construct U v) \<and> w' = snd (initAMap_construct U v) \<and>
           (pre = [] \<or> pre = [InitAMapUI]) \<and> state_map v = state_map w \<and>
           (lifecycle v = Mounted \<or> lifecycle v = lifecycle w)"
proof (cases e)
  case DidMount
  with assms(1) have cs: "(cs, w') = componentDidMount U (w\<lparr>lifecycle := Mounted\<rparr>)"
    by (auto split: if_splits)
  show ?thesis
  proof (cases "windowAMap w")
    case True
    with cs have "cs = [] @ fst (initAMap_construct U (w\<lparr>lifecycle := Mounted\<rparr>))"
      and "w' = snd (initAMap_construct U (w\<lparr>lifecycle := Mounted\<rparr>))"
      by (simp_all add: componentDidMount_def initAMap_def prod_eq_iff)
    then show ?thesis
      by (intro exI [of _ "[]"] exI [of _ "w\<lparr>lifecycle := Mounted\<rparr>"] conjI) simp_all
  next
    case False
    with cs assms(2) show ?thesis
      by (simp add: componentDidMount_def initAMap_def loadScript_def)
  qed
next
  case (DidUpdate p)
  with assms(1) have "cs = fst (componentDidUpdate U (w\<lparr>this_props := p\<rparr>))"
    by (auto split: if_splits)
  with assms(2) show ?thesis by (auto dest: componentDidUpdate_only_setters)
next
  case WillUnmount
  with assms show ?thesis
    by (auto split: if_splits sum.splits dest: unmount_calls)
next
  case (Onload s)
  with assms(1) have cs: "(cs, w') = onload U s w" by (auto split: if_splits)
  let ?w1 = "w\<lparr>scripts := (scripts w)(s := Loaded)\<rparr>"
  show ?thesis
  proof (cases s)
    case MapsJs
    with cs assms(2) show ?thesis
      by (auto simp: onload_def initAMap_afterRequireAMap_def loadScript_def Let_def
          split: if_splits)
  next
    case UiJs
    show ?thesis
    proof (cases "progress w = AwaitAMapUI \<and> scripts w LocaJs = Loaded")
      case True
      with cs UiJs have "cs = [InitAMapUI] @ fst (initAMap_construct U ?w1)"
        and "w' = snd (initAMap_construct U ?w1)"
        by (simp_all add: onload_def initAMap_afterAMapUI_def Let_def split_beta prod_eq_iff)
      then show ?thesis
        by (intro exI [of _ "[InitAMapUI]"] exI [of _ ?w1] conjI) simp_all
    next
      case False
      with cs UiJs assms(2) show ?thesis
        by (auto simp: onload_def initAMap_afterAMapUI_def Let_def split: if_splits)
    qed
  next
    case LocaJs
    show ?thesis
    proof (cases "progress w = AwaitLoca")
      case True
      with cs LocaJs have "cs = [] @ fst (initAMap_construct U ?w1)"
        and "w' = snd (initAMap_construct U ?w1)"
        by (simp_all add: onload_def Let_def prod_eq_iff)
      then show ?thesis
        by (intro exI [of _ "[]"] exI [of _ ?w1] conjI) simp_all
    next
      case False
      with cs LocaJs assms(2) show ?thesis
        by (auto simp: onload_def Let_def)
    qed
  qed
next
  case (Onerror s)
  with assms show ?thesis by (auto split: if_splits)
qed

lemma step_newmap:
  assumes "step U e w = Some (cs, w')" and "NewMap c' ob m \<in> set cs"
  shows "(\<exists>pre ups. cs = pre @ NewMap c' ob m # fst (map_binds m) @ ups \<and>
            (pre = [] \<or> pre = [InitAMapUI]) \<and>
            (\<forall>x \<in> set ups. \<exists>api args. x = Invoke m api args \<and> api \<in> fst ` set mapDiffs))
         \<and> this_map w' = m \<and> m \<noteq> Undefined
         \<and> state_map w' = (if lifecycle w' = Mounted then m else state_map w)
         \<and> AMapEventListeners w' = Some (snd (map_binds m))
         \<and> progress w' = Finished"
proof -
  from step_constructs [OF assms] obtain pre v where
    cs: "cs = pre @ fst (initAMap_construct U v)" and w': "w' = snd (initAMap_construct U v)"
    and pre: "pre = [] \<or> pre = [InitAMapUI]" and st: "state_map v = state_map w"
    by blast
  from construct_trace [of U v] obtain ups where
    f: "fst (initAMap_construct U v) =
            NewMap (mapContainer v) (mapOptions v) (Ref (length (hp v)))
            # fst (map_binds (Ref (length (hp v)))) @ ups"
    and u: "\<forall>x \<in> set ups. \<exists>api args.
             x = Invoke (Ref (length (hp v))) api args \<and> api \<in> fst ` set mapDiffs"
    by blast
  have "NewMap c' ob m \<notin> set pre" using pre by auto
  moreover have "NewMap c' ob m \<notin> set (fst (map_binds (Ref (length (hp v)))))"
    by (auto simp: map_binds_def dest: bindInstanceEvent_calls)
  moreover have "NewMap c' ob m \<notin> set ups" using u by auto
  ultimately have m: "NewMap c' ob m = NewMap (mapContainer v) (mapOptions v) (Ref (length (hp v)))"
    using assms(2) by (simp add: cs f)
  then have mm: "m = Ref (length (hp v))" by simp
  have "cs = pre @ NewMap c' ob m # fst (map_binds m) @ ups"
    using m by (simp add: cs f)
  with pre u mm have "\<exists>pre ups. cs = pre @ NewMap c' ob m # fst (map_binds m) @ ups \<and>
            (pre = [] \<or> pre = [InitAMapUI]) \<and>
            (\<forall>x \<in> set ups. \<exists>api args. x = Invoke m api args \<and> api \<in> fst ` set mapDiffs)"
    by blast
  then show ?thesis
    by (simp add: w' construct_sel mm st)
qed

lemma step_keeps_map:
  assumes "step U e w = Some (cs, w')" and "this_map w \<noteq> Undefined"
  shows "this_map w' \<noteq> Undefined"
proof (cases e)
  case DidMount
  with assms(1) have "w' = snd (componentDidMount U (w\<lparr>lifecycle := Mounted\<rparr>))"
    by (auto split: if_splits)
  with assms(2) show ?thesis
    by (auto simp: componentDidMount_sel split: if_splits)
next
  case (DidUpdate p)
  with assms(1) have "w' = snd (componentDidUpdate U (w\<lparr>this_props := p\<rparr>))"
    by (auto split: if_splits)
  with assms(2) show ?thesis by simp
next
  case WillUnmount
  with assms show ?thesis by (auto split: if_splits)
next
  case (Onload s)
  with assms(1) have "w' = snd (onload U s w)" by (auto split: if_splits)
  with assms(2) show ?thesis
    by (cases s)
       (auto simp: onload_def initAMap_afterRequireAMap_def initAMap_afterAMapUI_def
          construct_sel loadScript_def Let_def split_beta split: if_splits)
next
  case (Onerror s)
  with assms show ?thesis by (auto split: if_splits)
qed

lemma run_keeps_map:
  "run U evs w = Some (cs, w') \<Longrightarrow> this_map w \<noteq> Undefined \<Longrightarrow> this_map w' \<noteq> Undefined"
proof (induction evs arbitrary: w cs)
  case Nil
  then show ?case by simp
next
  case (Cons e es)
  from run_Cons_Some [OF Cons.prems(1)] obtain c1 w1 c2
    where s: "step U e w = Some (c1, w1)" and r: "run U es w1 = Some (c2, w')" by blast
  from Cons.IH [OF r step_keeps_map [OF s Cons.prems(2)]] show ?case .
qed

lemma run_newmap:
  "run U evs w = Some (cs, w') \<Longrightarrow> NewMap c' ob m \<in> set cs \<Longrightarrow> this_map w' \<noteq> Undefined"
proof (induction evs arbitrary: w cs)
  case Nil
  then show ?case by simp
next
  case (Cons e es)
  from run_Cons_Some [OF Cons.prems(1)] obtain c1 w1 c2
    where s: "step U e w = Some (c1, w1)" and r: "run U es w1 = Some (c2, w')"
      and cs: "cs = c1 @ c2" by blast
  from Cons.prems(2) cs consider "NewMap c' ob m \<in> set c1" | "NewMap c' ob m \<in> set c2" by auto
  then show ?case
  proof cases
    case 1
    from step_newmap [OF s 1] have "this_map w1 \<noteq> Undefined" by simp
    from run_keeps_map [OF r this] show ?thesis .
  next
    case 2
    from Cons.IH [OF r 2] show ?thesis .
  qed
qed





lemma constructor_scripts: "scripts (AMap_constructor d h c p) s = NotRequested"
  by (simp add: AMap_constructor_def split_beta)


lemma step_settled:
  assumes "loading_inv w" and "scripts w s = t" and "t = Loaded \<or> t = Failed"
    and "step U e w = Some (cs, w')"
  shows "scripts w' s = t"
proof (cases e)
  case DidMount
  with assms(4) have "lifecycle w = Constructed" by (auto split: if_splits)
  with assms(1) have "progress w = NotStarted"
    by (cases "progress w") (simp_all add: loading_inv_def)
  with assms(1,2,3) show ?thesis
    by (cases s) (auto simp: loading_inv_def)
next
  case (DidUpdate p)
  with assms(4) have "w' = snd (componentDidUpdate U (w\<lparr>this_props := p\<rparr>))"
    by (auto split: if_splits)
  with assms(2) show ?thesis by simp
next
  case WillUnmount
  with assms(2,4) show ?thesis by (auto split: if_splits)
next
  case (Onload s')
  with assms(4) have w': "w' = snd (onload U s' w)" and l: "scripts w s' = Loading"
    by (auto split: if_splits)
  from l assms(2,3) have ne: "s' \<noteq> s" by auto
  show ?thesis
  proof (cases s')
    case MapsJs
    with assms(1) l have p: "progress w = AwaitRequireAMap"
      by (cases "progress w") (simp_all add: loading_inv_def)
    with assms(1) have "scripts w UiJs = NotRequested" "scripts w LocaJs = NotRequested"
      by (simp_all add: loading_inv_def)
    with assms(2,3) ne MapsJs show ?thesis by (cases s) auto
  next
    case UiJs
    with ne assms(2) show ?thesis
      by (auto simp: w' onload_def initAMap_afterAMapUI_def construct_sel Let_def
          split_beta)
  next
    case LocaJs
    with ne assms(2) show ?thesis
      by (auto simp: w' onload_def construct_sel Let_def)
  qed
next
  case (Onerror s')
  with assms(4) have w': "w' = w\<lparr>scripts := (scripts w)(s' := Failed)\<rparr>"
    and l: "scripts w s' = Loading"
    by (auto split: if_splits)
  from l assms(2,3) have "s' \<noteq> s" by auto
  with assms(2) show ?thesis by (simp add: w')
qed

lemma run_settled:
  "loading_inv w \<Longrightarrow> scripts w s = t \<Longrightarrow> t = Loaded \<or> t = Failed \<Longrightarrow>
   run U evs w = Some (cs, w') \<Longrightarrow> scripts w' s = t"
proof (induction evs arbitrary: w cs)
  case Nil
  then show ?case by simp
next
  case (Cons e es)
  from run_Cons_Some [OF Cons.prems(4)] obtain c1 w1 c2
    where s: "step U e w = Some (c1, w1)" and r: "run U es w1 = Some (c2, w')" by blast
  from Cons.IH [OF loading_inv_step [OF Cons.prems(1) s]
      step_settled [OF Cons.prems(1,2,3) s] Cons.prems(3) r]
  show ?case .
qed

lemma run_event_settles:
  assumes "loading_inv w" and "run U evs w = Some (cs, w')"
  shows "(Onerror s \<in> set evs \<longrightarrow> scripts w' s = Failed) \<and>
         (Onload s \<in> set evs \<longrightarrow> scripts w' s = Loaded)"
  using assms
proof (induction evs arbitrary: w cs)
  case Nil
  then show ?case by simp
next
  case (Cons e es)
  from run_Cons_Some [OF Cons.prems(2)] obtain c1 w1 c2
    where s: "step U e w = Some (c1, w1)" and r: "run U es w1 = Some (c2, w')" by blast
  have inv1: "loading_inv w1" by (rule loading_inv_step [OF Cons.prems(1) s])
  have "scripts w' s = Failed" if "e = Onerror s"
  proof -
    from that s have "scripts w1 s = Failed" by (auto split: if_splits)
    from run_settled [OF inv1 this _ r] show ?thesis by simp
  qed
  moreover have "scripts w' s = Loaded" if "e = Onload s"
  proof -
    from that s have "w1 = snd (onload U s w)" by (auto split: if_splits)
    then have "scripts w1 s = Loaded" by (simp add: onload_scripts)
    from run_settled [OF inv1 this _ r] show ?thesis by simp
  qed
  ultimately show ?case using Cons.IH [OF inv1 r] by auto
qed

lemma not_loaded_no_map:
  assumes "loading_inv w" and "scripts w s \<noteq> Loaded"
  shows "progress w \<noteq> Finished \<and> this_map w = Undefined"
  using assms by (cases "progress w"; cases s) (auto simp: loading_inv_def)
















section \<open>A script that does not load\<close>

text \<open>
  C4. The \<open>error\<close> event of a script element has no handler: it makes no call and changes
  nothing in the component, and a script that failed does not fire again. In every run of
  a component constructed before the library was loaded, a script whose \<open>error\<close> event
  occurred never has a \<open>load\<close> event; and while the \<open>load\<close> event of any one of the three
  scripts has not occurred, \<open>initAMap\<close> has not finished, no map was constructed, none is in
  the instance or in the state, \<open>render\<close> shows no children, and no error was raised.
\<close>

theorem load_failure_unhandled:
  "(step U (Onerror s) w = Some (cs1, w1) \<longrightarrow>
      cs1 = [] \<and> w1 = w\<lparr>scripts := (scripts w)(s := Failed)\<rparr>)
   \<and> (scripts w s = Failed \<longrightarrow> step U (Onload s) w = None \<and> step U (Onerror s) w = None)
   \<and> (run U evs (AMap_constructor False h c p) = Some (cs, w') \<and> Onerror s \<in> set evs \<longrightarrow>
        scripts w' s = Failed \<and> Onload s \<notin> set evs)
   \<and> (run U evs (AMap_constructor False h c p) = Some (cs, w') \<and> Onload s \<notin> set evs \<longrightarrow>
        progress w' \<noteq> Finished \<and> this_map w' = Undefined \<and> state_map w' = Undefined \<and>
        NewMap c' ob m \<notin> set cs \<and> snd (AMap_render w') = Bool False \<and>
        Uncaught x \<notin> set cs)"
proof (intro conjI impI)
  assume "step U (Onerror s) w = Some (cs1, w1)"
  then show "cs1 = []" and "w1 = w\<lparr>scripts := (scripts w)(s := Failed)\<rparr>"
    by (auto split: if_splits)
next
  assume "scripts w s = Failed"
  then show "step U (Onload s) w = None" and "step U (Onerror s) w = None"
    by simp_all
next
  assume a: "run U evs (AMap_constructor False h c p) = Some (cs, w') \<and> Onerror s \<in> set evs"
  then have r: "run U evs (AMap_constructor False h c p) = Some (cs, w')"
    and e: "Onerror s \<in> set evs" by simp_all
  from run_event_settles [OF loading_inv_constructor r, of s] e
  show f: "scripts w' s = Failed" by simp
  show "Onload s \<notin> set evs"
  proof
    assume "Onload s \<in> set evs"
    with run_event_settles [OF loading_inv_constructor r, of s] have "scripts w' s = Loaded"
      by simp
    with f show False by simp
  qed
next
  assume a: "run U evs (AMap_constructor False h c p) = Some (cs, w') \<and> Onload s \<notin> set evs"
  then have r: "run U evs (AMap_constructor False h c p) = Some (cs, w')"
    and e: "Onload s \<notin> set evs" by simp_all
  have "scripts w' s \<noteq> Loaded"
    using run_loaded [OF r, of s] e by (auto simp: constructor_scripts)
  from not_loaded_no_map [OF loading_inv_run [OF loading_inv_constructor r] this]
  show "progress w' \<noteq> Finished" and nomap: "this_map w' = Undefined" by simp_all
  from wired_run [OF wired_constructor r] nomap
  show nostate: "state_map w' = Undefined" by (auto simp: wired_def)
  show "NewMap c' ob m \<notin> set cs"
    using run_newmap [OF r] nomap by blast
  show "snd (AMap_render w') = Bool False"
    by (simp add: AMap_render_def nostate)
  show "Uncaught x \<notin> set cs"
    by (rule run_no_uncaught [OF wired_constructor r])
qed

text \<open>
  The example component is mounted, the maps script loads, the UI script fails and the
  Loca script loads: \<open>initAMap\<close> stays at \<open>await AMapUI\<close>.
\<close>

theorem load_failure_unhandled_witness:
  "run utils_spec [DidMount, Onload MapsJs, Onerror UiJs, Onload LocaJs] ex_init =
     Some ([AppendScript MapsJs, AppendScript UiJs, AppendScript LocaJs],
           ex_init\<lparr>windowAMap := True, lifecycle := Mounted, progress := AwaitAMapUI,
                   scripts := (\<lambda>s. NotRequested)(MapsJs := Loaded, UiJs := Failed,
                                LocaJs := Loaded)\<rparr>)
   \<and> progress (ex_init\<lparr>windowAMap := True, lifecycle := Mounted, progress := AwaitAMapUI,
                   scripts := (\<lambda>s. NotRequested)(MapsJs := Loaded, UiJs := Failed,
                                LocaJs := Loaded)\<rparr>) \<noteq> Finished
   \<and> snd (AMap_render (ex_init\<lparr>windowAMap := True, lifecycle := Mounted, progress := AwaitAMapUI,
                   scripts := (\<lambda>s. NotRequested)(MapsJs := Loaded, UiJs := Failed,
                                LocaJs := Loaded)\<rparr>)) = Bool False
   \<and> step utils_spec (Onload UiJs)
        (ex_init\<lparr>windowAMap := True, lifecycle := Mounted, progress := AwaitAMapUI,
                   scripts := (\<lambda>s. NotRequested)(MapsJs := Loaded, UiJs := Failed,
                                LocaJs := Loaded)\<rparr>) = None"
proof -
  let ?w = "ex_init\<lparr>windowAMap := True, lifecycle := Mounted, progress := AwaitAMapUI,
                   scripts := (\<lambda>s. NotRequested)(MapsJs := Loaded, UiJs := Failed,
                                LocaJs := Loaded)\<rparr>"
  have r0: "run utils_spec [DidMount, Onload MapsJs, Onerror UiJs, Onload LocaJs] ex_init =
     Some ([AppendScript MapsJs, AppendScript UiJs, AppendScript LocaJs], ?w)"
    by (simp add: ex_init_eq componentDidMount_def initAMap_def loadScript_def onload_def
        initAMap_afterRequireAMap_def Let_def fun_upd_twist)
  then have r: "run utils_spec [DidMount, Onload MapsJs, Onerror UiJs, Onload LocaJs]
      (AMap_constructor False ex_heap Undefined ex_props) =
     Some ([AppendScript MapsJs, AppendScript UiJs, AppendScript LocaJs], ?w)"
    by (simp only: ex_init_def)
  have e: "Onerror UiJs \<in> set [DidMount, Onload MapsJs, Onerror UiJs, Onload LocaJs]"
    and n: "Onload UiJs \<notin> set [DidMount, Onload MapsJs, Onerror UiJs, Onload LocaJs]"
    by simp_all
  note a = load_failure_unhandled [where U = utils_spec and h = ex_heap and c = Undefined
      and p = ex_props and w' = ?w and s = UiJs, THEN conjunct2, THEN conjunct2, THEN conjunct1,
      THEN mp, OF conjI [OF r e], THEN conjunct1]
  note b = load_failure_unhandled [where U = utils_spec and h = ex_heap and c = Undefined
      and p = ex_props and w' = ?w and s = UiJs, THEN conjunct2, THEN conjunct2, THEN conjunct2,
      THEN mp, OF conjI [OF r n]]
  note c = load_failure_unhandled [where U = utils_spec and w = ?w and s = UiJs,
      THEN conjunct2, THEN conjunct1, THEN mp, OF a, THEN conjunct1]
  from b have b1: "progress ?w \<noteq> Finished" and b2: "snd (AMap_render ?w) = Bool False"
    by blast+
  show ?thesis by (intro conjI r0 b1 b2 c)
qed

section \<open>The deep clone makes new cells only\<close>

lemma deref_valid_append:
  "valid h0 v \<Longrightarrow> deref (h0 @ nw) v = deref h0 v"
  by (auto simp: valid_def deref_def nth_append split: jsval.splits)

lemma closed_heap_cell:
  "closed_heap h \<Longrightarrow> deref h v = Some ob \<Longrightarrow> list_all (valid h) (refs_of ob)"
  by (auto simp: closed_heap_def deref_def list_all_iff split: jsval.splits if_splits)

lemma fresh_append: "fresh n h v \<Longrightarrow> fresh n (h @ ext) v"
  by (auto simp: fresh_def split: jsval.splits)

lemma region_closed_append:
  "region_closed n h \<Longrightarrow> n \<le> length h \<Longrightarrow> list_all (\<lambda>ob. list_all (fresh n (h @ ext)) (refs_of ob)) ext \<Longrightarrow>
   region_closed n (h @ ext)"
  by (auto simp: region_closed_def list_all_iff intro: fresh_append)

lemma region_closed_alloc:
  assumes "region_closed n h" and "n \<le> length h" and "list_all (fresh n h) (refs_of ob)"
  shows "region_closed n (h @ [ob])"
  using assms
  by (intro region_closed_append) (auto simp: list_all_iff intro: fresh_append)

lemma fresh_new: "n \<le> length h \<Longrightarrow> fresh n (h @ [ob]) (Ref (length h))"
  by (simp add: fresh_def)

lemma deepClone_fresh_aux:
  assumes closed: "closed_heap h0"
  shows "(\<forall>nw v' h'. h = h0 @ nw \<longrightarrow> valid h0 v \<longrightarrow> region_closed (length h0) h \<longrightarrow>
            deepClone n h v = Some (v', h') \<longrightarrow>
            (\<exists>ext. h' = h @ ext) \<and> region_closed (length h0) h' \<and> fresh (length h0) h' v')"
    and "(\<forall>nw ys h'. h = h0 @ nw \<longrightarrow> list_all (valid h0) xs \<longrightarrow> region_closed (length h0) h \<longrightarrow>
            deepCloneList n h xs = Some (ys, h') \<longrightarrow>
            (\<exists>ext. h' = h @ ext) \<and> region_closed (length h0) h' \<and>
            list_all (fresh (length h0) h') ys \<and> length ys = length xs)"
proof (induction n h v and n h xs rule: deepClone_deepCloneList.induct)
  case (1 h v)
  show ?case
  proof (intro allI impI)
    fix nw v' h'
    assume h: "h = h0 @ nw" and v: "valid h0 v" and rc: "region_closed (length h0) h"
      and dc: "deepClone 0 h v = Some (v', h')"
    from dc have none: "deref h v = None" and res: "v' = v" "h' = h"
      by (auto split: option.splits)
    from none h v have "deref h0 v = None" by (simp add: deref_valid_append)
    with v have "fresh (length h0) h' v'"
      by (auto simp: res fresh_def valid_def deref_def split: jsval.splits)
    with rc res show "(\<exists>ext. h' = h @ ext) \<and> region_closed (length h0) h' \<and> fresh (length h0) h' v'"
      by simp
  qed
next
  case (2 n h v)
  show ?case
  proof (intro allI impI)
    fix nw v' h'
    assume h: "h = h0 @ nw" and v: "valid h0 v" and rc: "region_closed (length h0) h"
      and dc: "deepClone (Suc n) h v = Some (v', h')"
    have dv: "deref h v = deref h0 v" using h v by (simp add: deref_valid_append)
    show "(\<exists>ext. h' = h @ ext) \<and> region_closed (length h0) h' \<and> fresh (length h0) h' v'"
    proof (cases "deref h v")
      case None
      with dc have res: "v' = v" "h' = h" by simp_all
      from None dv v have "fresh (length h0) h' v'"
        by (auto simp: res fresh_def valid_def deref_def split: jsval.splits)
      with rc res show ?thesis by simp
    next
      case (Some ob)
      with dv have "deref h0 v = Some ob" by simp
      from closed_heap_cell [OF closed this] have refs: "list_all (valid h0) (refs_of ob)" .
      have len: "length h0 \<le> length h" by (simp add: h)
      show ?thesis
      proof (cases ob)
        case (Obj kvs)
        with Some dc obtain ys h1 where l: "deepCloneList n h (map snd kvs) = Some (ys, h1)"
          and res: "v' = Ref (length h1)" "h' = h1 @ [Obj (zip (map fst kvs) ys)]"
          by (auto simp: alloc_def split: option.splits)
        from "2.IH"(1) [OF Some Obj] h refs Obj rc l
        obtain ext where e: "h1 = h @ ext" and rc1: "region_closed (length h0) h1"
          and f: "list_all (fresh (length h0) h1) ys" and ly: "length ys = length (map snd kvs)"
          by auto
        have len1: "length h0 \<le> length h1" using len e by simp
        have "list_all (fresh (length h0) h1) (refs_of (Obj (zip (map fst kvs) ys)))"
          using f ly by simp
        from region_closed_alloc [OF rc1 len1 this] fresh_new [OF len1] e
        show ?thesis by (simp add: res)
      next
        case (Arr xs)
        with Some dc obtain ys h1 where l: "deepCloneList n h xs = Some (ys, h1)"
          and res: "v' = Ref (length h1)" "h' = h1 @ [Arr ys]"
          by (auto simp: alloc_def split: option.splits)
        from "2.IH"(2) [OF Some Arr] h refs Arr rc l
        obtain ext where e: "h1 = h @ ext" and rc1: "region_closed (length h0) h1"
          and f: "list_all (fresh (length h0) h1) ys"
          by auto
        have len1: "length h0 \<le> length h1" using len e by simp
        have "list_all (fresh (length h0) h1) (refs_of (Arr ys))"
          using f by simp
        from region_closed_alloc [OF rc1 len1 this] fresh_new [OF len1] e
        show ?thesis by (simp add: res)
      next
        case (Inst c args)
        with Some dc obtain ys h1 where l: "deepCloneList n h args = Some (ys, h1)"
          and res: "v' = Ref (length h1)" "h' = h1 @ [Inst c ys]"
          by (auto simp: alloc_def split: option.splits)
        from "2.IH"(3) [OF Some Inst] h refs Inst rc l
        obtain ext where e: "h1 = h @ ext" and rc1: "region_closed (length h0) h1"
          and f: "list_all (fresh (length h0) h1) ys"
          by auto
        have len1: "length h0 \<le> length h1" using len e by simp
        have "list_all (fresh (length h0) h1) (refs_of (Inst c ys))"
          using f by simp
        from region_closed_alloc [OF rc1 len1 this] fresh_new [OF len1] e
        show ?thesis by (simp add: res)
      qed
    qed
  qed
next
  case (3 n h)
  then show ?case by simp
next
  case (4 n h x xs)
  show ?case
  proof (intro allI impI)
    fix nw ys h'
    assume h: "h = h0 @ nw" and v: "list_all (valid h0) (x # xs)"
      and rc: "region_closed (length h0) h"
      and dc: "deepCloneList n h (x # xs) = Some (ys, h')"
    from dc obtain y h1 ys' where c1: "deepClone n h x = Some (y, h1)"
      and c2: "deepCloneList n h1 xs = Some (ys', h')" and res: "ys = y # ys'"
      by (auto split: option.splits)
    from "4.IH"(1) h v rc c1
    obtain ext where e: "h1 = h @ ext" and rc1: "region_closed (length h0) h1"
      and f: "fresh (length h0) h1 y"
      by auto
    have h1: "h1 = h0 @ (nw @ ext)" by (simp add: e h)
    from "4.IH"(2) [OF c1 refl] h1 v rc1 c2
    obtain ext' where e': "h' = h1 @ ext'" and rc2: "region_closed (length h0) h'"
      and f': "list_all (fresh (length h0) h') ys'" and ly: "length ys' = length xs"
      by auto
    from f e' have "fresh (length h0) h' y" by (simp add: fresh_append)
    with e e' rc2 f' ly
    show "(\<exists>ext. h' = h @ ext) \<and> region_closed (length h0) h' \<and>
            list_all (fresh (length h0) h') ys \<and> length ys = length (x # xs)"
      by (simp add: res)
  qed
qed


lemma valid_append: "valid h v \<Longrightarrow> valid (h @ ext) v"
  by (auto simp: valid_def split: jsval.splits)

lemma fresh_valid: "fresh n h v \<Longrightarrow> valid h v"
  by (auto simp: valid_def fresh_def split: jsval.splits)

lemma closed_heap_append:
  assumes "closed_heap h" and "list_all (\<lambda>ob. list_all (valid (h @ ext)) (refs_of ob)) ext"
  shows "closed_heap (h @ ext)"
  using assms by (auto simp: closed_heap_def list_all_iff intro: valid_append)

lemma closed_heap_alloc:
  assumes "closed_heap h" and "list_all (valid h) (refs_of ob)"
  shows "closed_heap (h @ [ob])"
  using assms by (intro closed_heap_append) (auto simp: list_all_iff intro: valid_append)

lemma valid_object_append: "valid_object h ob \<Longrightarrow> valid_object (h @ ext) ob"
  by (auto simp: valid_object_def list_all_iff intro: valid_append)

lemma valid_get: "valid_object h ob \<Longrightarrow> valid h (get ob k)"
proof (cases "map_of ob k")
  case None
  then show ?thesis by (simp add: get_def valid_def)
next
  case (Some v)
  assume "valid_object h ob"
  moreover from Some have "(k, v) \<in> set ob" by (rule map_of_SomeD)
  ultimately have "valid h v" by (auto simp: valid_object_def list_all_iff)
  with Some show ?thesis by (simp add: get_def)
qed

lemma valid_object_update:
  "valid_object h ob \<Longrightarrow> valid h v \<Longrightarrow> valid_object h (AList.update k v ob)"
  by (induction ob) (auto simp: valid_object_def)

lemma valid_object_omit: "valid_object h ob \<Longrightarrow> valid_object h (omit ks ob)"
  by (auto simp: valid_object_def omit_def list_all_iff)

lemma valid_prim [simp]:
  "valid h Undefined" "valid h Null" "valid h (Num x)" "valid h (Str s)" "valid h (Bool b)"
  by (simp_all add: valid_def)

lemma valid_getProp: "closed_heap h \<Longrightarrow> valid h (getProp h v k)"
proof -
  assume closed: "closed_heap h"
  show ?thesis
  proof (cases "deref h v")
    case None
    then show ?thesis by (simp add: getProp_def)
  next
    case (Some ob)
    from closed_heap_cell [OF closed Some] have refs: "list_all (valid h) (refs_of ob)" .
    show ?thesis
    proof (cases ob)
      case (Obj kvs)
      with refs have "valid_object h kvs" by (simp add: valid_object_def list_all_iff)
      then have "valid h (get kvs k)" by (rule valid_get)
      with Some Obj show ?thesis by (simp add: getProp_def)
    qed (use Some in \<open>simp_all add: getProp_def\<close>)
  qed
qed

lemma valid_object_indexed: "list_all (valid h) xs \<Longrightarrow> valid_object h (indexed xs)"
  by (auto simp: valid_object_def indexed_def list_all_iff dest: set_zip_rightD)

lemma valid_spread: "closed_heap h \<Longrightarrow> valid_object h (spread h v)"
proof -
  assume closed: "closed_heap h"
  show ?thesis
  proof (cases "deref h v")
    case None
    have "valid_object h (indexed (map (\<lambda>c. Str [c]) s))" for s
      by (rule valid_object_indexed) (simp add: list_all_iff)
    with None show ?thesis
      by (cases v) (simp_all add: spread_def valid_object_def)
  next
    case (Some ob)
    from closed_heap_cell [OF closed Some] have refs: "list_all (valid h) (refs_of ob)" .
    show ?thesis
    proof (cases ob)
      case (Obj kvs)
      with refs Some show ?thesis by (simp add: spread_def valid_object_def list_all_iff)
    next
      case (Arr xs)
      with refs Some show ?thesis by (simp add: spread_def valid_object_indexed)
    next
      case (Inst c args)
      with Some show ?thesis by (simp add: spread_def valid_object_def)
    qed
  qed
qed

lemma valid_new: "valid (h @ [ob]) (Ref (length h))"
  by (simp add: valid_def)

lemma toPixel_closed:
  assumes "closed_heap h" and "valid h v" and "list_all (valid h) dflt"
    and "toPixel h v dflt = (px, h')"
  shows "closed_heap h' \<and> valid h' px \<and> (\<exists>ext. h' = h @ ext)"
proof (cases "instanceOf h v AMap_Pixel")
  case True
  with assms show ?thesis by (simp add: toPixel_def)
next
  case False
  show ?thesis
  proof (cases "\<exists>xs. deref h v = Some (Arr xs)")
    case True
    then obtain xs where d: "deref h v = Some (Arr xs)" by blast
    from closed_heap_cell [OF assms(1) d]
    have "list_all (valid h) (refs_of (Inst AMap_Pixel xs))" by simp
    from closed_heap_alloc [OF assms(1) this] assms(4) False d show ?thesis
      by (auto simp: toPixel_def alloc_def valid_new)
  next
    case no: False
    have "list_all (valid h) (refs_of (Inst AMap_Pixel dflt))" using assms(3) by simp
    from closed_heap_alloc [OF assms(1) this] assms(4) False no show ?thesis
      by (auto simp: toPixel_def alloc_def valid_new split: option.splits hobj.splits)
  qed
qed

lemma markerIcon_closed:
  assumes "closed_heap h" and "valid h icon" and "markerIcon h icon = (v, h')"
  shows "closed_heap h' \<and> valid h' v \<and> (\<exists>ext. h' = h @ ext)"
proof (cases "isNullVoid icon \<or> instanceOf h icon AMap_Icon")
  case True
  with assms show ?thesis by (cases "isNullVoid icon") (simp_all add: markerIcon_def)
next
  case False
  obtain px ha where px: "toPixel h (getProp h icon ''imageOffset'') [Num 0, Num 0] = (px, ha)"
    by (cases "toPixel h (getProp h icon ''imageOffset'') [Num 0, Num 0]")
  have "closed_heap ha \<and> valid ha px \<and> (\<exists>ext. ha = h @ ext)"
    by (rule toPixel_closed [OF assms(1) valid_getProp [OF assms(1)] _ px]) simp
  then obtain ext where ca: "closed_heap ha" and vpx: "valid ha px" and ha: "ha = h @ ext"
    by blast
  let ?ob = "Obj [(''image'', getProp h icon ''image''), (''imageOffset'', px),
                  (''imageSize'', getProp h icon ''imageSize''), (''size'', getProp h icon ''size'')]"
  have "list_all (valid ha) (refs_of ?ob)"
    using vpx valid_getProp [OF assms(1)] by (simp add: ha valid_append)
  from closed_heap_alloc [OF ca this] have cb: "closed_heap (ha @ [?ob])" .
  have "list_all (valid (ha @ [?ob])) (refs_of (Inst AMap_Icon [Ref (length ha)]))"
    by (simp add: valid_new)
  from closed_heap_alloc [OF cb this]
  have cc: "closed_heap (ha @ [?ob] @ [Inst AMap_Icon [Ref (length ha)]])" by simp
  from assms(3) False px
  have res: "v = Ref (Suc (length ha))" "h' = ha @ [?ob] @ [Inst AMap_Icon [Ref (length ha)]]"
    by (simp_all add: markerIcon_def alloc_def)
  show ?thesis using cc by (simp add: res valid_def ha)
qed

lemma markerLabel_closed:
  assumes "closed_heap h" and "valid h label" and "markerLabel h label = (v, h')"
  shows "closed_heap h' \<and> valid h' v \<and> (\<exists>ext. h' = h @ ext)"
proof (cases "isNullVoid label")
  case True
  with assms show ?thesis by (auto simp: markerLabel_def)
next
  case False
  obtain px ha where px: "toPixel h (getProp h label ''offset'') [Num 0, Num 0] = (px, ha)"
    by (cases "toPixel h (getProp h label ''offset'') [Num 0, Num 0]")
  have "closed_heap ha \<and> valid ha px \<and> (\<exists>ext. ha = h @ ext)"
    by (rule toPixel_closed [OF assms(1) valid_getProp [OF assms(1)] _ px]) simp
  then obtain ext where ca: "closed_heap ha" and vpx: "valid ha px" and ha: "ha = h @ ext"
    by blast
  let ?ob = "Obj (AList.update ''offset'' px (spread h label))"
  have "valid_object ha (AList.update ''offset'' px (spread h label))"
    using valid_spread [OF assms(1)] vpx
    by (intro valid_object_update) (simp_all add: ha valid_object_append)
  then have "list_all (valid ha) (refs_of ?ob)"
    by (simp add: valid_object_def list_all_iff)
  from closed_heap_alloc [OF ca this] have cb: "closed_heap (ha @ [?ob])" .
  from assms(3) False px
  have res: "v = Ref (length ha)" "h' = ha @ [?ob]"
    by (simp_all add: markerLabel_def alloc_def)
  show ?thesis using cb by (simp add: res valid_def ha)
qed

lemma parseMarkerOptions_closed:
  assumes closed: "closed_heap h" and props: "valid_object h p"
    and parse: "parseMarkerOptions h p = (mo, h')"
  shows "closed_heap h' \<and> valid_object h' mo \<and> (\<exists>ext. h' = h @ ext)"
proof -
  let ?o = "omit markerEventKeys p"
  have vo: "valid_object h ?o" using props by (rule valid_object_omit)
  obtain label h0 where l: "(if get ?o ''label'' = Undefined
              then (let (a, h') = alloc (Obj []) h in (Ref a, h'))
              else (get ?o ''label'', h)) = (label, h0)"
    by (cases "(if get ?o ''label'' = Undefined
              then (let (a, h') = alloc (Obj []) h in (Ref a, h'))
              else (get ?o ''label'', h))")
  have c0: "closed_heap h0 \<and> valid h0 label \<and> (\<exists>ext. h0 = h @ ext)"
  proof (cases "get ?o ''label'' = Undefined")
    case True
    with l have res: "label = Ref (length h)" "h0 = h @ [Obj []]" by (simp_all add: alloc_def)
    have "closed_heap (h @ [Obj []])" by (rule closed_heap_alloc [OF closed]) simp
    then show ?thesis by (simp add: res valid_def)
  next
    case False
    with l have res: "label = get ?o ''label''" "h0 = h" by simp_all
    show ?thesis using closed valid_get [OF vo] by (simp add: res)
  qed
  then obtain e0 where ch0: "closed_heap h0" and vl: "valid h0 label" and h0: "h0 = h @ e0"
    by blast
  have vo0: "valid_object h0 ?o" using vo by (simp add: h0 valid_object_append)
  obtain newIcon h1 where i: "markerIcon h0 (get ?o ''icon'') = (newIcon, h1)"
    by (cases "markerIcon h0 (get ?o ''icon'')")
  from markerIcon_closed [OF ch0 valid_get [OF vo0] i]
  obtain e1 where ch1: "closed_heap h1" and vi: "valid h1 newIcon" and h1: "h1 = h0 @ e1"
    by blast
  obtain newLabel h2 where lb: "markerLabel h1 label = (newLabel, h2)"
    by (cases "markerLabel h1 label")
  have "valid h1 label" using vl by (simp add: h1 valid_append)
  from markerLabel_closed [OF ch1 this lb]
  obtain e2 where ch2: "closed_heap h2" and vlb: "valid h2 newLabel" and h2: "h2 = h1 @ e2"
    by blast
  obtain newOffset h3 where off: "toPixel h2 (get ?o ''offset'') [Num (- 10), Num (- 34)] = (newOffset, h3)"
    by (cases "toPixel h2 (get ?o ''offset'') [Num (- 10), Num (- 34)]")
  have vo2: "valid_object h2 ?o" using vo0 by (simp add: h1 h2 valid_object_append)
  have "closed_heap h3 \<and> valid h3 newOffset \<and> (\<exists>ext. h3 = h2 @ ext)"
    by (rule toPixel_closed [OF ch2 valid_get [OF vo2] _ off]) simp
  then obtain e3 where ch3: "closed_heap h3" and voff: "valid h3 newOffset" and h3: "h3 = h2 @ e3"
    by blast
  from parse l i lb off
  have res: "mo = AList.update ''offset'' newOffset
            (AList.update ''label'' newLabel (AList.update ''icon'' newIcon ?o))" "h' = h3"
    by (simp_all add: parseMarkerOptions_def Let_def)
  have v3: "valid_object h3 ?o" "valid h3 newIcon" "valid h3 newLabel"
    using vo2 vi vlb unfolding h3 h2 by (blast intro: valid_object_append valid_append)+
  have "valid_object h3 mo"
    unfolding res using v3 voff by (intro valid_object_update)
  with ch3 show ?thesis by (simp add: res h3 h2 h1 h0)
qed

lemma region_closed_empty: "region_closed (length h) h"
  by (simp add: region_closed_def)

lemma cloneFields_fresh:
  assumes closed: "closed_heap h0"
  shows "h = h0 @ nw \<Longrightarrow> valid_object h0 ob \<Longrightarrow> region_closed (length h0) h \<Longrightarrow>
         cloneFields fs h ob = Inr (ob', h') \<Longrightarrow>
         (\<exists>ext. h' = h @ ext) \<and> region_closed (length h0) h' \<and>
         (\<forall>k. (k \<in> set fs \<longrightarrow> fresh (length h0) h' (get ob' k)) \<and>
              (k \<notin> set fs \<longrightarrow> get ob' k = get ob k))"
proof (induction ob arbitrary: h nw ob')
  case Nil
  then show ?case by (simp add: get_def fresh_def)
next
  case (Cons kv kvs)
  obtain k0 v0 where kv: "kv = (k0, v0)" by (cases kv)
  from Cons.prems(2) have v0: "valid h0 v0" and vkvs: "valid_object h0 kvs"
    by (simp_all add: kv valid_object_def)
  show ?case
  proof (cases "k0 \<in> set fs")
    case True
    with Cons.prems(4) obtain v1 h1 kvs' where
      c: "deepClone (length h) h v0 = Some (v1, h1)"
      and r: "cloneFields fs h1 kvs = Inr (kvs', h')" and ob': "ob' = (k0, v1) # kvs'"
      by (auto simp: kv split: option.splits sum.splits)
    from deepClone_fresh_aux(1) [OF closed, where h = h and n = "length h" and v = v0] Cons.prems(1) v0 Cons.prems(3) c
    obtain e1 where h1: "h1 = h @ e1" and rc1: "region_closed (length h0) h1"
      and f1: "fresh (length h0) h1 v1"
      by blast
    have h1': "h1 = h0 @ (nw @ e1)" by (simp add: h1 Cons.prems(1))
    from Cons.IH [OF h1' vkvs rc1 r]
    obtain e2 where h': "h' = h1 @ e2" and rc: "region_closed (length h0) h'"
      and g: "\<And>k. k \<in> set fs \<Longrightarrow> fresh (length h0) h' (get kvs' k)"
             "\<And>k. k \<notin> set fs \<Longrightarrow> get kvs' k = get kvs k"
      by blast
    from f1 have f1': "fresh (length h0) h' v1" by (simp add: h' fresh_append)
    have "fresh (length h0) h' (get ob' k)" if "k \<in> set fs" for k
      using that f1' g(1) [of k] by (simp add: ob' get_def)
    moreover have "get ob' k = get (kv # kvs) k" if "k \<notin> set fs" for k
      using that True g(2) [of k] by (auto simp: ob' kv get_def)
    ultimately show ?thesis using rc by (simp add: h' h1)
  next
    case False
    with Cons.prems(4) obtain kvs' where
      r: "cloneFields fs h kvs = Inr (kvs', h')" and ob': "ob' = (k0, v0) # kvs'"
      by (auto simp: kv split: sum.splits)
    from Cons.IH [OF Cons.prems(1) vkvs Cons.prems(3) r]
    obtain e2 where h': "h' = h @ e2" and rc: "region_closed (length h0) h'"
      and g: "\<And>k. k \<in> set fs \<Longrightarrow> fresh (length h0) h' (get kvs' k)"
             "\<And>k. k \<notin> set fs \<Longrightarrow> get kvs' k = get kvs k"
      by blast
    have "fresh (length h0) h' (get ob' k)" if "k \<in> set fs" for k
      using that False g(1) [of k] by (auto simp: ob' get_def)
    moreover have "get ob' k = get (kv # kvs) k" if "k \<notin> set fs" for k
      using that g(2) [of k] by (auto simp: ob' kv get_def)
    ultimately show ?thesis using rc by (simp add: h')
  qed
qed

lemma region_closed_heap:
  assumes "closed_heap h" and "region_closed (length h) (h @ ext)"
  shows "closed_heap (h @ ext)"
proof (rule closed_heap_append [OF assms(1)])
  from assms(2) show "list_all (\<lambda>ob. list_all (valid (h @ ext)) (refs_of ob)) ext"
    by (auto simp: region_closed_def list_all_iff intro: fresh_valid)
qed

lemma cloneDeep_spec_position:
  assumes "closed_heap h" and "valid_object h mo"
    and "cloneDeep utils_spec h mo NEED_DEEP_COPY_FIELDS = Inr (new, hc)"
  shows "(\<exists>ext. hc = h @ ext) \<and> region_closed (length h) hc \<and> closed_heap hc \<and>
         fresh (length h) hc (get new ''position'') \<and>
         (\<forall>k. k \<noteq> ''position'' \<longrightarrow> get new k = get mo k)"
proof -
  from assms(3) have "cloneFields [''position''] h mo = Inr (new, hc)"
    by (simp add: utils_spec_def cloneDeep_spec_def NEED_DEEP_COPY_FIELDS_def)
  from cloneFields_fresh [OF assms(1) _ assms(2) region_closed_empty this, of "[]"]
  obtain ext where hc: "hc = h @ ext" and rc: "region_closed (length h) hc"
    and g: "\<forall>k. (k \<in> set [''position''] \<longrightarrow> fresh (length h) hc (get new k)) \<and>
              (k \<notin> set [''position''] \<longrightarrow> get new k = get mo k)"
    by auto
  from region_closed_heap [OF assms(1)] rc have "closed_heap hc" by (simp add: hc)
  with hc rc g show ?thesis by simp
qed

lemma reaches_region:
  assumes "reaches h v b" and "fresh n h v" and "region_closed n h"
  shows "n \<le> b \<and> b < length h"
  using assms
proof (induction rule: reaches.induct)
  case (reaches_root a)
  then show ?case by (simp add: fresh_def)
next
  case (reaches_step v a b)
  then have a: "n \<le> a" "a < length h" by simp_all
  then have "h ! a \<in> set (drop n h)"
    by (auto simp: in_set_conv_nth intro!: exI [of _ "a - n"])
  with reaches_step.prems(2) reaches_step.hyps(2) have "fresh n h (Ref b)"
    by (auto simp: region_closed_def list_all_iff)
  with reaches_step.hyps(3) show ?case by (simp add: fresh_def)
qed

lemma mutate_length [simp]: "length (mutate ws h) = length h"
proof -
  have "length (fold (\<lambda>w hm. hm[fst w := snd w]) ws h) = length h"
    by (induction ws arbitrary: h) simp_all
  then show ?thesis by (simp add: mutate_def)
qed

lemma mutate_take:
  assumes "\<forall>w \<in> set ws. n \<le> fst w"
  shows "take n (mutate ws h) = take n h"
proof -
  from assms have "take n (fold (\<lambda>w hm. hm[fst w := snd w]) ws h) = take n h"
    by (induction ws arbitrary: h) simp_all
  then show ?thesis by (simp add: mutate_def)
qed

lemma deref_take:
  assumes "take (length h) hm = h" and "valid h v"
  shows "deref hm v = deref h v"
proof (cases v)
  case (Ref a)
  with assms(2) have a: "a < length h" by (simp add: valid_def)
  from assms(1) have "length h \<le> length hm"
    by (metis length_take min.cobounded1)
  moreover from a have "take (length h) hm ! a = hm ! a" by simp
  ultimately show ?thesis using a assms(1) by (simp add: Ref deref_def)
qed (simp_all add: deref_def)

lemma isShallowEqual_spec_take:
  assumes "take (length h) hm = h" and "valid h v" and "valid h w"
  shows "isShallowEqual_spec hm v w = isShallowEqual_spec h v w"
  by (simp add: isShallowEqual_spec_def deref_take [OF assms(1)] assms(2,3))

text \<open>
  The frame of a hand-over: when the cells from \<open>length h\<close> on form a region of their own
  and the value handed to the SDK lies in it, writes to cells that the value reaches leave
  the first \<open>length h\<close> cells, and every comparison of values held there, as they were.
\<close>

lemma handed_frame:
  assumes rc: "region_closed (length h) (h @ ext)" and f: "fresh (length h) (h @ ext) pos"
    and ws: "\<forall>w \<in> set ws. reaches (h @ ext) pos (fst w)"
  shows "take (length h) (mutate ws (h @ ext @ later)) = h"
    and "valid h v \<Longrightarrow> valid h w \<Longrightarrow>
         isShallowEqual_spec (mutate ws (h @ ext @ later)) v w = isShallowEqual_spec h v w"
proof -
  from ws reaches_region [OF _ f rc] have "\<forall>w \<in> set ws. length h \<le> fst w" by blast
  from mutate_take [OF this, of "h @ ext @ later"]
  show t: "take (length h) (mutate ws (h @ ext @ later)) = h" by simp
  show "isShallowEqual_spec (mutate ws (h @ ext @ later)) v w = isShallowEqual_spec h v w"
    if "valid h v" "valid h w"
    using isShallowEqual_spec_take [OF t that] .
qed

lemma updateMarkerWithAPI_args:
  "c \<in> set (concat (map (\<lambda>(api, k). updateMarkerWithAPI U h m api (prev k) (nxt k) (new k)) tbl))
   \<Longrightarrow> \<exists>api k. (api, k) \<in> set tbl \<and> c = Invoke m api [new k]"
  by (induction tbl) (auto simp: updateMarkerWithAPI_def split: if_splits)

lemma setPosition_row: "(''setPosition'', k) \<in> set markerDiffs \<Longrightarrow> k = ''position''"
  by (simp add: markerDiffs_def)

lemma position_not_event: "''position'' \<notin> set markerEventKeys"
  by (simp add: markerEventKeys_def)

text \<open>
  What a clone of the options gives, on a heap without dangling references: the cells made
  by the clone (and the cells \<open>tail\<close> made right after it, which hold no reference) come
  after the cells of the heap, the \<open>position\<close> of the copy lies among them, and so does
  everything it reaches.
\<close>

lemma handed_over:
  assumes closed: "closed_heap h1" and vo: "valid_object h1 mo"
    and clone: "cloneDeep utils_spec h1 mo NEED_DEEP_COPY_FIELDS = Inr (new, hc)"
    and tail: "list_all (\<lambda>ob. refs_of ob = []) tail"
  shows "take (length h1) (hc @ tail) = h1"
    and "fresh (length h1) (hc @ tail) (get new ''position'')"
    and "k \<noteq> ''position'' \<Longrightarrow> get new k = get mo k"
    and "get new ''position'' \<noteq> Ref a \<or> get mo ''position'' \<noteq> Ref a"
    and "reaches (hc @ tail) (get new ''position'') b \<Longrightarrow> length h1 \<le> b"
    and "\<forall>w \<in> set ws. reaches (hc @ tail) (get new ''position'') (fst w) \<Longrightarrow>
         take (length h1) (mutate ws ((hc @ tail) @ later)) = h1 \<and>
         (\<forall>v w. valid h1 v \<and> valid h1 w \<longrightarrow>
            isShallowEqual_spec (mutate ws ((hc @ tail) @ later)) v w = isShallowEqual_spec h1 v w)"
    and "closed_heap (hc @ tail)"
proof -
  from cloneDeep_spec_position [OF closed vo clone]
  obtain ext where hc: "hc = h1 @ ext" and rc: "region_closed (length h1) hc"
    and chc: "closed_heap hc" and f: "fresh (length h1) hc (get new ''position'')"
    and other: "\<forall>k. k \<noteq> ''position'' \<longrightarrow> get new k = get mo k"
    by blast
  have len: "length h1 \<le> length hc" by (simp add: hc)
  have t: "list_all (\<lambda>ob. list_all (fresh (length h1) (hc @ tail)) (refs_of ob)) tail"
    using tail by (simp add: list_all_iff)
  from region_closed_append [OF rc len t]
  have rc': "region_closed (length h1) (h1 @ ext @ tail)" by (simp add: hc)
  from f have f': "fresh (length h1) (h1 @ ext @ tail) (get new ''position'')"
    using fresh_append [of "length h1" hc "get new ''position''" tail] by (simp add: hc)
  show "take (length h1) (hc @ tail) = h1" by (simp add: hc)
  from f' show "fresh (length h1) (hc @ tail) (get new ''position'')" by (simp add: hc)
  from other show "get new k = get mo k" if "k \<noteq> ''position''" using that by simp
  show "get new ''position'' \<noteq> Ref a \<or> get mo ''position'' \<noteq> Ref a"
  proof (cases "get mo ''position'' = Ref a")
    case True
    with valid_get [OF vo, of "''position''"] have "a < length h1" by (simp add: valid_def)
    with f have "get new ''position'' \<noteq> Ref a" by (auto simp: fresh_def)
    then show ?thesis ..
  qed simp
  show "length h1 \<le> b" if "reaches (hc @ tail) (get new ''position'') b"
    using reaches_region [OF _ f' rc', of b] that by (simp add: hc)
  show "take (length h1) (mutate ws ((hc @ tail) @ later)) = h1 \<and>
         (\<forall>v w. valid h1 v \<and> valid h1 w \<longrightarrow>
            isShallowEqual_spec (mutate ws ((hc @ tail) @ later)) v w = isShallowEqual_spec h1 v w)"
    if "\<forall>w \<in> set ws. reaches (hc @ tail) (get new ''position'') (fst w)"
  proof -
    from that have ws: "\<forall>w \<in> set ws. reaches (h1 @ ext @ tail) (get new ''position'') (fst w)"
      by (simp add: hc)
    from handed_frame [OF rc' f' ws, where later = later]
    show ?thesis by (simp add: hc)
  qed
  have "list_all (\<lambda>ob. list_all (valid (hc @ tail)) (refs_of ob)) tail"
    using tail by (simp add: list_all_iff)
  from closed_heap_append [OF chc this] show "closed_heap (hc @ tail)" .
qed


lemma ex_moved_sel:
  "mhp ex_moved =
     ex_marker_heap @ [Arr [Num 120, Num 30], Inst AMap_Marker [], Arr [Num 121, Num 31]]"
  "markerOptions ex_moved = ex_marker_options" "marker ex_moved = Ref 4"
  by (simp_all add: ex_moved_def ex_marker_def)

lemma ex_moved_parse:
  "parseMarkerOptions (mhp ex_moved) ex_moved_props = (ex_moved_options, mhp ex_moved)"
  by (simp add: ex_moved_sel)
     (simp add: parseMarkerOptions_def ex_moved_props_def ex_marker_heap_def
      ex_moved_options_def omit_def markerEventKeys_def get_def isNullVoid_def toPixel_def
      instanceOf_def deref_def markerIcon_def markerLabel_def)

lemma ex_moved_clone:
  "cloneDeep utils_spec (mhp ex_moved) ex_moved_options NEED_DEEP_COPY_FIELDS =
     Inr (ex_moved_handed, mhp ex_moved @ [Arr [Num 121, Num 31]])"
  by (simp add: ex_moved_sel)
     (simp add: utils_spec_def cloneDeep_spec_def NEED_DEEP_COPY_FIELDS_def
      ex_moved_options_def ex_moved_handed_def ex_marker_heap_def deref_def alloc_def
      eval_nat_numeral)

lemma ex_moved_update:
  "shouldComponentUpdate utils_spec ex_moved ex_moved_props =
     Inr ([Invoke (Ref 4) ''setPosition'' [Ref 6]],
          ex_moved\<lparr>mhp := mhp ex_moved @ [Arr [Num 121, Num 31]],
                   markerOptions := ex_moved_options\<rparr>, False)"
proof -
  have "isShallowEqual utils_spec h a a" for h a
    by (simp add: utils_spec_def isShallowEqual_spec_def)
  moreover have "\<not> isShallowEqual utils_spec (mhp ex_moved @ [Arr [Num 121, Num 31]])
     (Ref 0) (Ref 5)"
    by (simp add: utils_spec_def isShallowEqual_spec_def deref_def ex_moved_sel
        ex_marker_heap_def)
  ultimately show ?thesis
    by (simp add: shouldComponentUpdate_calls [OF ex_moved_parse ex_moved_clone]
        markerDiffs_def toggleVisible_def updateMarkerWithAPI_def ex_moved_sel(2,3)
        ex_marker_options_def ex_moved_options_def ex_moved_handed_def get_def)
qed

lemma ex_marker_closed:
  "closed_heap ex_marker_heap" "valid_object ex_marker_heap ex_marker_props"
  by (simp_all add: closed_heap_def valid_object_def valid_def ex_marker_heap_def
      ex_marker_props_def)

lemma ex_moved_closed:
  "closed_heap (mhp ex_moved)" "valid_object (mhp ex_moved) ex_moved_props"
  by (simp_all add: closed_heap_def valid_object_def valid_def ex_moved_sel ex_marker_heap_def
      ex_moved_props_def)

text \<open>
  C9. With the deep clone of the options as modelled, on a heap without dangling
  references and for props that live in it: the constructor hands \<open>new AMap.Marker\<close>, and
  an update hands every setter, a copy of the parsed options made by
  \<open>cloneDeep(options, NEED_DEEP_COPY_FIELDS)\<close>; the copy agrees with the options in every
  field but \<open>position\<close>; the options kept in \<open>this.markerOptions\<close> are the parsed ones, with
  the \<open>position\<close> of the props. The \<open>position\<close> of the copy is not a cell that existed before
  the clone, so it is not the array of the props; every cell it reaches was made by the
  clone; and whatever the SDK writes to cells that it reaches, then or later, the cells that
  existed before the clone (those of the props and of the kept options) and every
  shallow-equality comparison of values held there stay as they were.
\<close>

theorem position_never_shared:
  "(closed_heap h \<and> valid_object h p \<and> parseMarkerOptions h p = (mo, ha) \<and>
    Marker_constructor utils_spec h p m = Inr (cs, st) \<longrightarrow>
      markerOptions st = mo \<and> get mo ''position'' = get p ''position'' \<and>
      valid_object ha mo \<and> closed_heap (mhp st) \<and> take (length ha) (mhp st) = ha \<and>
      (\<exists>new hc rest.
         cloneDeep utils_spec ha mo NEED_DEEP_COPY_FIELDS = Inr (new, hc) \<and>
         mhp st = hc @ [Inst AMap_Marker []] \<and>
         cs = NewMarker new (marker st) # rest \<and>
         (\<forall>k. k \<noteq> ''position'' \<longrightarrow> get new k = get mo k) \<and>
         fresh (length ha) (mhp st) (get new ''position'') \<and>
         (\<forall>a. get p ''position'' = Ref a \<longrightarrow> get new ''position'' \<noteq> Ref a) \<and>
         (\<forall>b. reaches (mhp st) (get new ''position'') b \<longrightarrow> length ha \<le> b) \<and>
         (\<forall>ws later. (\<forall>w \<in> set ws. reaches (mhp st) (get new ''position'') (fst w)) \<longrightarrow>
            take (length ha) (mutate ws (mhp st @ later)) = ha \<and>
            (\<forall>v w. valid ha v \<and> valid ha w \<longrightarrow>
               isShallowEqual_spec (mutate ws (mhp st @ later)) v w
               = isShallowEqual_spec ha v w))))
   \<and> (closed_heap (mhp old) \<and> valid_object (mhp old) np \<and>
      parseMarkerOptions (mhp old) np = (nmo, hb) \<and>
      shouldComponentUpdate utils_spec old np = Inr (cs', st', r) \<longrightarrow>
      markerOptions st' = nmo \<and> get nmo ''position'' = get np ''position'' \<and>
      valid_object hb nmo \<and> closed_heap (mhp st') \<and> take (length hb) (mhp st') = hb \<and>
      (\<exists>new.
         cloneDeep utils_spec hb nmo NEED_DEEP_COPY_FIELDS = Inr (new, mhp st') \<and>
         (\<forall>c \<in> set cs'.
            c = Invoke (marker old) ''show'' [] \<or> c = Invoke (marker old) ''hide'' [] \<or>
            (\<exists>api k. (api, k) \<in> set markerDiffs \<and> c = Invoke (marker old) api [get new k])) \<and>
         (\<forall>args. Invoke (marker old) ''setPosition'' args \<in> set cs' \<longrightarrow>
            args = [get new ''position'']) \<and>
         (\<forall>k. k \<noteq> ''position'' \<longrightarrow> get new k = get nmo k) \<and>
         fresh (length hb) (mhp st') (get new ''position'') \<and>
         (\<forall>a. get np ''position'' = Ref a \<longrightarrow> get new ''position'' \<noteq> Ref a) \<and>
         (\<forall>b. reaches (mhp st') (get new ''position'') b \<longrightarrow> length hb \<le> b) \<and>
         (\<forall>ws later. (\<forall>w \<in> set ws. reaches (mhp st') (get new ''position'') (fst w)) \<longrightarrow>
            take (length hb) (mutate ws (mhp st' @ later)) = hb \<and>
            (\<forall>v w. valid hb v \<and> valid hb w \<longrightarrow>
               isShallowEqual_spec (mutate ws (mhp st' @ later)) v w
               = isShallowEqual_spec hb v w))))"
proof (intro conjI impI)
  assume hyp: "closed_heap h \<and> valid_object h p \<and> parseMarkerOptions h p = (mo, ha) \<and>
    Marker_constructor utils_spec h p m = Inr (cs, st)"
  then have closed: "closed_heap h" and vp: "valid_object h p"
    and parse: "parseMarkerOptions h p = (mo, ha)"
    and con: "Marker_constructor utils_spec h p m = Inr (cs, st)"
    by blast+
  from parseMarkerOptions_closed [OF closed vp parse]
  have c1: "closed_heap ha" and vo: "valid_object ha mo" by blast+
  from con parse obtain ics mk hm where
    init: "initMarker utils_spec ha mo p m = Inr (ics, mk, hm)"
    and st: "mhp st = hm" "markerOptions st = mo" "marker st = mk"
    and cs: "\<exists>rest. cs = ics @ rest"
    by (auto simp: Marker_constructor_def Let_def split_beta
        split: option.splits sum.splits)
  from init obtain new hc where
    clone: "cloneDeep utils_spec ha mo NEED_DEEP_COPY_FIELDS = Inr (new, hc)"
    and hm: "hm = hc @ [Inst AMap_Marker []]" and mk: "mk = Ref (length hc)"
    and ics: "\<exists>rest. ics = NewMarker new mk # rest"
    by (auto simp: initMarker_def Let_def alloc_def split: sum.splits)
  from cs ics have cs': "\<exists>rest. cs = NewMarker new (marker st) # rest"
    by (auto simp: st)
  have tail: "list_all (\<lambda>ob. refs_of ob = []) [Inst AMap_Marker []]" by simp
  note H = handed_over [OF c1 vo clone tail]
  have pos: "get mo ''position'' = get p ''position''"
    using parseMarkerOptions_other [of "''position''" h p] position_not_event
    by (simp add: parse)
  show "markerOptions st = mo" by (rule st(2))
  show "get mo ''position'' = get p ''position''" by (rule pos)
  show "valid_object ha mo" by (rule vo)
  show "closed_heap (mhp st)" using H(7) by (simp add: st hm)
  show "take (length ha) (mhp st) = ha" using H(1) by (simp add: st hm)
  show "\<exists>new hc rest.
         cloneDeep utils_spec ha mo NEED_DEEP_COPY_FIELDS = Inr (new, hc) \<and>
         mhp st = hc @ [Inst AMap_Marker []] \<and>
         cs = NewMarker new (marker st) # rest \<and>
         (\<forall>k. k \<noteq> ''position'' \<longrightarrow> get new k = get mo k) \<and>
         fresh (length ha) (mhp st) (get new ''position'') \<and>
         (\<forall>a. get p ''position'' = Ref a \<longrightarrow> get new ''position'' \<noteq> Ref a) \<and>
         (\<forall>b. reaches (mhp st) (get new ''position'') b \<longrightarrow> length ha \<le> b) \<and>
         (\<forall>ws later. (\<forall>w \<in> set ws. reaches (mhp st) (get new ''position'') (fst w)) \<longrightarrow>
            take (length ha) (mutate ws (mhp st @ later)) = ha \<and>
            (\<forall>v w. valid ha v \<and> valid ha w \<longrightarrow>
               isShallowEqual_spec (mutate ws (mhp st @ later)) v w
               = isShallowEqual_spec ha v w))"
  proof -
    from cs' obtain rest where rest: "cs = NewMarker new (marker st) # rest" by (rule exE)
    have "cloneDeep utils_spec ha mo NEED_DEEP_COPY_FIELDS = Inr (new, hc)" by (rule clone)
    moreover have "mhp st = hc @ [Inst AMap_Marker []]" by (simp add: st hm)
    moreover note rest
    moreover have "\<forall>k. k \<noteq> ''position'' \<longrightarrow> get new k = get mo k" using H(3) by blast
    moreover have "fresh (length ha) (mhp st) (get new ''position'')"
      using H(2) by (simp add: st hm)
    moreover have "\<forall>a. get p ''position'' = Ref a \<longrightarrow> get new ''position'' \<noteq> Ref a"
      using H(4) pos by metis
    moreover have "\<forall>b. reaches (mhp st) (get new ''position'') b \<longrightarrow> length ha \<le> b"
      using H(5) by (simp add: st hm)
    moreover have "\<forall>ws later. (\<forall>w \<in> set ws. reaches (mhp st) (get new ''position'') (fst w)) \<longrightarrow>
            take (length ha) (mutate ws (mhp st @ later)) = ha \<and>
            (\<forall>v w. valid ha v \<and> valid ha w \<longrightarrow>
               isShallowEqual_spec (mutate ws (mhp st @ later)) v w
               = isShallowEqual_spec ha v w)"
      using H(6) unfolding st hm by blast
    ultimately show ?thesis by blast
  qed
next
  assume hyp: "closed_heap (mhp old) \<and> valid_object (mhp old) np \<and>
      parseMarkerOptions (mhp old) np = (nmo, hb) \<and>
      shouldComponentUpdate utils_spec old np = Inr (cs', st', r)"
  then have closed: "closed_heap (mhp old)" and vp: "valid_object (mhp old) np"
    and parse: "parseMarkerOptions (mhp old) np = (nmo, hb)"
    and upd: "shouldComponentUpdate utils_spec old np = Inr (cs', st', r)"
    by blast+
  from parseMarkerOptions_closed [OF closed vp parse]
  have c1: "closed_heap hb" and vo: "valid_object hb nmo" by blast+
  from upd parse obtain new hc where
    clone: "cloneDeep utils_spec hb nmo NEED_DEEP_COPY_FIELDS = Inr (new, hc)"
    by (cases "cloneDeep utils_spec hb nmo NEED_DEEP_COPY_FIELDS")
       (auto simp: shouldComponentUpdate_raises)
  from shouldComponentUpdate_calls [OF parse clone] upd
  have cs: "cs' = toggleVisible utils_spec hc (marker old) (get (markerOptions old) ''visible'')
                (get nmo ''visible'')
          @ concat (map (\<lambda>(api, k).
              updateMarkerWithAPI utils_spec hc (marker old) api (get (markerOptions old) k)
                (get nmo k) (get new k)) markerDiffs)"
    and st: "st' = old\<lparr>mhp := hc, markerOptions := nmo\<rparr>"
    by simp_all
  have calls: "c = Invoke (marker old) ''show'' [] \<or> c = Invoke (marker old) ''hide'' [] \<or>
            (\<exists>api k. (api, k) \<in> set markerDiffs \<and> c = Invoke (marker old) api [get new k])"
    if "c \<in> set cs'" for c
  proof -
    from that consider
      (toggle) "c \<in> set (toggleVisible utils_spec hc (marker old)
                  (get (markerOptions old) ''visible'') (get nmo ''visible''))"
      | (setter) "c \<in> set (concat (map (\<lambda>(api, k).
              updateMarkerWithAPI utils_spec hc (marker old) api (get (markerOptions old) k)
                (get nmo k) (get new k)) markerDiffs))"
      unfolding cs by auto
    then show ?thesis
    proof cases
      case toggle
      from toggleVisible_calls [OF this] show ?thesis by blast
    next
      case setter
      from updateMarkerWithAPI_args [OF this] show ?thesis by blast
    qed
  qed
  have setpos: "args = [get new ''position'']"
    if "Invoke (marker old) ''setPosition'' args \<in> set cs'" for args
  proof -
    from calls [OF that] obtain api k where
      "(api, k) \<in> set markerDiffs" "Invoke (marker old) ''setPosition'' args
          = Invoke (marker old) api [get new k]"
      by auto
    then have "(''setPosition'', k) \<in> set markerDiffs" and "args = [get new k]" by simp_all
    with setPosition_row show ?thesis by blast
  qed
  have tail: "list_all (\<lambda>ob. refs_of ob = []) []" by simp
  note H = handed_over [OF c1 vo clone tail]
  have pos: "get nmo ''position'' = get np ''position''"
    using parseMarkerOptions_other [of "''position''" "mhp old" np] position_not_event
    by (simp add: parse)
  show "markerOptions st' = nmo" by (simp add: st)
  show "get nmo ''position'' = get np ''position''" by (rule pos)
  show "valid_object hb nmo" by (rule vo)
  show "closed_heap (mhp st')" using H(7) by (simp add: st)
  show "take (length hb) (mhp st') = hb" using H(1) by (simp add: st)
  show "\<exists>new.
         cloneDeep utils_spec hb nmo NEED_DEEP_COPY_FIELDS = Inr (new, mhp st') \<and>
         (\<forall>c \<in> set cs'.
            c = Invoke (marker old) ''show'' [] \<or> c = Invoke (marker old) ''hide'' [] \<or>
            (\<exists>api k. (api, k) \<in> set markerDiffs \<and> c = Invoke (marker old) api [get new k])) \<and>
         (\<forall>args. Invoke (marker old) ''setPosition'' args \<in> set cs' \<longrightarrow>
            args = [get new ''position'']) \<and>
         (\<forall>k. k \<noteq> ''position'' \<longrightarrow> get new k = get nmo k) \<and>
         fresh (length hb) (mhp st') (get new ''position'') \<and>
         (\<forall>a. get np ''position'' = Ref a \<longrightarrow> get new ''position'' \<noteq> Ref a) \<and>
         (\<forall>b. reaches (mhp st') (get new ''position'') b \<longrightarrow> length hb \<le> b) \<and>
         (\<forall>ws later. (\<forall>w \<in> set ws. reaches (mhp st') (get new ''position'') (fst w)) \<longrightarrow>
            take (length hb) (mutate ws (mhp st' @ later)) = hb \<and>
            (\<forall>v w. valid hb v \<and> valid hb w \<longrightarrow>
               isShallowEqual_spec (mutate ws (mhp st' @ later)) v w
               = isShallowEqual_spec hb v w))"
  proof -
    have "cloneDeep utils_spec hb nmo NEED_DEEP_COPY_FIELDS = Inr (new, mhp st')"
      using clone by (simp add: st)
    moreover have "\<forall>c \<in> set cs'.
            c = Invoke (marker old) ''show'' [] \<or> c = Invoke (marker old) ''hide'' [] \<or>
            (\<exists>api k. (api, k) \<in> set markerDiffs \<and> c = Invoke (marker old) api [get new k])"
      using calls by blast
    moreover have "\<forall>args. Invoke (marker old) ''setPosition'' args \<in> set cs' \<longrightarrow>
            args = [get new ''position'']"
      using setpos by blast
    moreover have "\<forall>k. k \<noteq> ''position'' \<longrightarrow> get new k = get nmo k" using H(3) by blast
    moreover have "fresh (length hb) (mhp st') (get new ''position'')"
      using H(2) by (simp add: st)
    moreover have "\<forall>a. get np ''position'' = Ref a \<longrightarrow> get new ''position'' \<noteq> Ref a"
      using H(4) pos by metis
    moreover have "\<forall>b. reaches (mhp st') (get new ''position'') b \<longrightarrow> length hb \<le> b"
      using H(5) by (simp add: st)
    moreover have "\<forall>ws later. (\<forall>w \<in> set ws. reaches (mhp st') (get new ''position'') (fst w)) \<longrightarrow>
            take (length hb) (mutate ws (mhp st' @ later)) = hb \<and>
            (\<forall>v w. valid hb v \<and> valid hb w \<longrightarrow>
               isShallowEqual_spec (mutate ws (mhp st' @ later)) v w
               = isShallowEqual_spec hb v w)"
      using H(6) by (simp add: st)
    ultimately show ?thesis by blast
  qed
qed


theorem position_never_shared_witness:
  "closed_heap ex_marker_heap \<and> valid_object ex_marker_heap ex_marker_props \<and>
   parseMarkerOptions ex_marker_heap ex_marker_props = (ex_marker_options, ex_marker_heap) \<and>
   Marker_constructor utils_spec ex_marker_heap ex_marker_props (Ref 2) =
     Inr ([NewMarker ex_marker_handed (Ref 4), Invoke (Ref 4) ''setMap'' [Ref 2]]
          @ fst (Marker_bindEvents (Ref 4)), ex_marker) \<and>
   get ex_marker_props ''position'' = Ref 0 \<and> get ex_marker_handed ''position'' = Ref 3 \<and>
   take 3 (mutate [(3, Arr [Str ''lng'', Str ''lat''])] (mhp ex_marker)) = ex_marker_heap \<and>
   closed_heap (mhp ex_moved) \<and> valid_object (mhp ex_moved) ex_moved_props \<and>
   parseMarkerOptions (mhp ex_moved) ex_moved_props = (ex_moved_options, mhp ex_moved) \<and>
   shouldComponentUpdate utils_spec ex_moved ex_moved_props =
     Inr ([Invoke (Ref 4) ''setPosition'' [Ref 6]],
          ex_moved\<lparr>mhp := mhp ex_moved @ [Arr [Num 121, Num 31]],
                   markerOptions := ex_moved_options\<rparr>, False) \<and>
   get ex_moved_props ''position'' = Ref 5 \<and> get ex_moved_handed ''position'' = Ref 6 \<and>
   take 6 (mutate [(6, Arr [Str ''lng'', Str ''lat''])]
             (mhp ex_moved @ [Arr [Num 121, Num 31]])) = mhp ex_moved \<and>
   isShallowEqual_spec (mutate [(6, Arr [Str ''lng'', Str ''lat''])]
       (mhp ex_moved @ [Arr [Num 121, Num 31]])) (Ref 0) (Ref 5)
     = isShallowEqual_spec (mhp ex_moved) (Ref 0) (Ref 5)"
proof -
  let ?w = "[(3, Arr [Str ''lng'', Str ''lat''])]"
  let ?w' = "[(6, Arr [Str ''lng'', Str ''lat''])]"
  let ?st' = "ex_moved\<lparr>mhp := mhp ex_moved @ [Arr [Num 121, Num 31]],
                   markerOptions := ex_moved_options\<rparr>"
  note T = position_never_shared [where h = ex_marker_heap and p = ex_marker_props
      and mo = ex_marker_options and ha = ex_marker_heap and m = "Ref 2"
      and cs = "[NewMarker ex_marker_handed (Ref 4), Invoke (Ref 4) ''setMap'' [Ref 2]]
          @ fst (Marker_bindEvents (Ref 4))"
      and st = ex_marker and old = ex_moved and np = ex_moved_props
      and nmo = ex_moved_options and hb = "mhp ex_moved"
      and cs' = "[Invoke (Ref 4) ''setPosition'' [Ref 6]]" and st' = ?st' and r = False]
  have hyp1: "closed_heap ex_marker_heap \<and> valid_object ex_marker_heap ex_marker_props \<and>
     parseMarkerOptions ex_marker_heap ex_marker_props = (ex_marker_options, ex_marker_heap) \<and>
     Marker_constructor utils_spec ex_marker_heap ex_marker_props (Ref 2) =
       Inr ([NewMarker ex_marker_handed (Ref 4), Invoke (Ref 4) ''setMap'' [Ref 2]]
            @ fst (Marker_bindEvents (Ref 4)), ex_marker)"
    by (intro conjI ex_marker_closed ex_marker_parse ex_marker_constructed)
  have hyp2: "closed_heap (mhp ex_moved) \<and> valid_object (mhp ex_moved) ex_moved_props \<and>
     parseMarkerOptions (mhp ex_moved) ex_moved_props = (ex_moved_options, mhp ex_moved) \<and>
     shouldComponentUpdate utils_spec ex_moved ex_moved_props =
       Inr ([Invoke (Ref 4) ''setPosition'' [Ref 6]], ?st', False)"
    by (intro conjI ex_moved_closed ex_moved_parse ex_moved_update)
  have pos: "get ex_marker_props ''position'' = Ref 0" "get ex_marker_handed ''position'' = Ref 3"
    "get ex_moved_props ''position'' = Ref 5" "get ex_moved_handed ''position'' = Ref 6"
    by (simp_all add: get_def ex_marker_props_def ex_marker_handed_def ex_moved_props_def
        ex_moved_handed_def)
  have len: "length ex_marker_heap = 3" "length (mhp ex_moved) = 6"
    by (simp_all add: ex_moved_sel ex_marker_heap_def)
  from T [THEN conjunct1, THEN mp, OF hyp1]
  obtain new hc rest where
    c: "[NewMarker ex_marker_handed (Ref 4), Invoke (Ref 4) ''setMap'' [Ref 2]]
          @ fst (Marker_bindEvents (Ref 4)) = NewMarker new (marker ex_marker) # rest"
    and fr: "\<forall>ws later. (\<forall>w \<in> set ws. reaches (mhp ex_marker) (get new ''position'') (fst w)) \<longrightarrow>
            take (length ex_marker_heap) (mutate ws (mhp ex_marker @ later)) = ex_marker_heap \<and>
            (\<forall>v w. valid ex_marker_heap v \<and> valid ex_marker_heap w \<longrightarrow>
               isShallowEqual_spec (mutate ws (mhp ex_marker @ later)) v w
               = isShallowEqual_spec ex_marker_heap v w)"
    by blast
  from c have new: "new = ex_marker_handed" by simp
  have "reaches (mhp ex_marker) (Ref 3) 3"
    by (rule reaches_root) (simp add: ex_marker_sel ex_marker_heap_def)
  then have "\<forall>w \<in> set ?w. reaches (mhp ex_marker) (get new ''position'') (fst w)"
    by (simp add: new pos)
  with fr [THEN spec, THEN spec, THEN mp, of ?w "[]"]
  have m1: "take 3 (mutate ?w (mhp ex_marker)) = ex_marker_heap"
    by (simp add: len)
  from T [THEN conjunct2, THEN mp, OF hyp2]
  obtain new' where
    c': "cloneDeep utils_spec (mhp ex_moved) ex_moved_options NEED_DEEP_COPY_FIELDS
           = Inr (new', mhp ?st')"
    and fr': "\<forall>ws later. (\<forall>w \<in> set ws. reaches (mhp ?st') (get new' ''position'') (fst w)) \<longrightarrow>
            take (length (mhp ex_moved)) (mutate ws (mhp ?st' @ later)) = mhp ex_moved \<and>
            (\<forall>v w. valid (mhp ex_moved) v \<and> valid (mhp ex_moved) w \<longrightarrow>
               isShallowEqual_spec (mutate ws (mhp ?st' @ later)) v w
               = isShallowEqual_spec (mhp ex_moved) v w)"
    by blast
  from c' have new': "new' = ex_moved_handed" by (simp add: ex_moved_clone)
  have "reaches (mhp ?st') (Ref 6) 6"
    by (rule reaches_root) (simp add: len)
  then have "\<forall>w \<in> set ?w'. reaches (mhp ?st') (get new' ''position'') (fst w)"
    by (simp add: new' pos)
  with fr' [THEN spec, THEN spec, THEN mp, of ?w' "[]"]
  have m2: "take (length (mhp ex_moved))
              (mutate ?w' (mhp ex_moved @ [Arr [Num 121, Num 31]])) = mhp ex_moved"
    and m3: "\<forall>v w. valid (mhp ex_moved) v \<and> valid (mhp ex_moved) w \<longrightarrow>
               isShallowEqual_spec (mutate ?w' (mhp ex_moved @ [Arr [Num 121, Num 31]])) v w
               = isShallowEqual_spec (mhp ex_moved) v w"
    by simp_all
  have "valid (mhp ex_moved) (Ref 0)" "valid (mhp ex_moved) (Ref 5)"
    by (simp_all add: valid_def len)
  with m3 have m4: "isShallowEqual_spec (mutate ?w' (mhp ex_moved @ [Arr [Num 121, Num 31]]))
       (Ref 0) (Ref 5) = isShallowEqual_spec (mhp ex_moved) (Ref 0) (Ref 5)"
    by blast
  from m2 have m2': "take 6 (mutate ?w' (mhp ex_moved @ [Arr [Num 121, Num 31]])) = mhp ex_moved"
    by (simp only: len)
  from hyp1 hyp2 pos m1 m2' m4 show ?thesis by (intro conjI) blast+
qed

end
